theory Spec2Isabelle
  imports Main
begin

section \<open>Data model of the scene editor (src/src/App.jsx)\<close>

text \<open>
  Identifiers (scene ids, stage ids, position ids) are JavaScript strings. A position is
  an object with an \<open>id\<close> and further fields that the editor never inspects; those fields
  are kept as one opaque payload. Stored positions may lack an id (the position panel
  falls back to the index as key), hence the option.
\<close>

type_synonym ident = string

record position =
  pid :: "ident option"
  pdata :: string

text \<open>
  A stage carries its own list of positions and \<open>extra.fixed_len\<close>; everything else in a
  stage is opaque to the editor.
\<close>

record stage =
  stage_id :: ident
  stage_positions :: "position list"
  fixed_len :: bool
  stage_data :: string

record graph_entry =
  gx :: int
  gy :: int
  dest :: "ident list"

text \<open>
  \<open>scene.positions\<close> is the one array of the program that is written by index
  (\<open>draft.positions[positionIdx] = newPosition\<close>). A JavaScript array written beyond its
  length grows and leaves holes, so a slot of that array is an option: \<open>None\<close> is a hole.
  \<open>root\<close> is a stage id or null. \<open>graph\<close> is an object; its entries are kept in
  \<open>Object.entries\<close> order.
\<close>

record scene =
  scene_id :: ident
  name :: string
  root :: "ident option"
  stages :: "stage list"
  positions :: "position option list"
  graph :: "(ident \<times> graph_entry) list"
  furniture :: string
  tags :: "string list"
  is_private :: bool
  has_warnings :: bool

text \<open>
  A node of the X6 canvas: its id, its coordinates and the properties the editor sets
  with \<open>node.prop\<close>. A property that was never set (or set to null) reads as falsy; for
  \<open>isStart\<close> and \<open>fixedLen\<close> that is \<open>False\<close>.
\<close>

record node =
  node_id :: ident
  node_x :: int
  node_y :: int
  isStart :: bool
  fixedLen :: bool
  node_stage :: "stage option"
  node_scene :: "scene option"

record canvas =
  nodes :: "node list"
  edges :: "(ident \<times> ident) list"
  clientWidth :: int

text \<open>
  The component state: the canvas, the \<open>scenes\<close> list, \<open>activeScene\<close> (null until a
  scene is opened), the dirty flag \<open>edited\<close> (initially \<open>0\<close>, afterwards a boolean; only its
  truthiness is read), the guard \<open>inEdit.current\<close>, the placement cursor
  \<open>stageToGraphX\<close>/\<open>stageToGraphY\<close>, and the number of ids drawn so far from the
  clock and the random generator. A handler runs to completion on the state the previous
  one left: the program has one thread of control. The cursor variables belong to the
  component body, and the values a handler starts from depend on the render its closure
  was taken in; they are part of the state a handler is run on, and no property below
  reads them.
\<close>

record app_state =
  canvas_of :: canvas
  scenes :: "scene list"
  activeScene :: "scene option"
  edited :: bool
  inEdit :: bool
  stageToGraphX :: int
  stageToGraphY :: int
  drawn :: nat

text \<open>
  An exception leaves a handler at the point where it is thrown; what the handler had
  already written to the canvas or to a ref stays written. An error result therefore
  carries the state at the throw.
\<close>

datatype js_error = TypeError string | ReferenceError string

type_synonym result = "(js_error \<times> app_state) + app_state"

definition deliver :: "(app_state \<Rightarrow> result) \<Rightarrow> app_state \<Rightarrow> app_state" where
  "deliver handler st = (case handler st of Inl (e, st') \<Rightarrow> st' | Inr st' \<Rightarrow> st')"

section \<open>Position identifiers\<close>

text \<open>
  \<open>generatePositionId\<close> reads the clock and the random generator:
  \<^verbatim>\<open>`${Date.now()}_${Math.random().toString(36).substr(2, 9)}`\<close>.
  Both are inputs from the environment: the \<open>k\<close>-th call sees the \<open>k\<close>-th draw, a
  millisecond count and the base-36 rendering of the random number.
\<close>

record draw =
  now :: nat
  random36 :: string

type_synonym entropy = "nat \<Rightarrow> draw"

definition digit10 :: "nat \<Rightarrow> char" where
  "digit10 d = char_of (48 + d)"

fun decimal :: "nat \<Rightarrow> string" where
  "decimal n = (if n < 10 then [digit10 n] else decimal (n div 10) @ [digit10 (n mod 10)])"

declare decimal.simps [simp del]

definition substr :: "nat \<Rightarrow> nat \<Rightarrow> string \<Rightarrow> string" where
  "substr start len s = take len (drop start s)"

definition generatePositionId :: "entropy \<Rightarrow> nat \<Rightarrow> ident" where
  "generatePositionId env k =
     decimal (now (env k)) @ ''_'' @ substr 2 9 (random36 (env k))"

section \<open>Array helpers\<close>

text \<open>\<open>findIndex\<close>: the first index whose element satisfies the test; \<open>None\<close> is \<open>-1\<close>.\<close>

fun findIndex :: "('a \<Rightarrow> bool) \<Rightarrow> 'a list \<Rightarrow> nat option" where
  "findIndex P [] = None"
| "findIndex P (x # xs) = (if P x then Some 0 else map_option Suc (findIndex P xs))"

text \<open>
  \<open>xs.filter((_, idx) => idx !== positionIdx)\<close> on an array without holes. The index of
  the message is a number that may be negative, so it is an \<open>int\<close>.
\<close>

definition filter_idx :: "int \<Rightarrow> 'a list \<Rightarrow> 'a list" where
  "filter_idx i xs = map snd (filter (\<lambda>(k, x). int k \<noteq> i) (enumerate 0 xs))"

text \<open>
  The same call on \<open>scene.positions\<close>: \<open>filter\<close> does not visit a hole and does not
  copy it, so the result has none.
\<close>

definition filter_idx_sparse :: "int \<Rightarrow> 'a option list \<Rightarrow> 'a option list" where
  "filter_idx_sparse i xs =
     map snd (filter (\<lambda>(k, x). x \<noteq> None \<and> int k \<noteq> i) (enumerate 0 xs))"

text \<open>
  \<open>xs[i] = v\<close>: inside the array the slot is replaced; at or beyond the length the array
  grows to \<open>i + 1\<close> slots, the new ones before \<open>i\<close> being holes; a negative \<open>i\<close> names a
  property, not a slot, and the slots stay as they are.
\<close>

definition assign_idx :: "int \<Rightarrow> 'a \<Rightarrow> 'a option list \<Rightarrow> 'a option list" where
  "assign_idx i v xs =
     (if i < 0 then xs
      else if nat i < length xs then xs[nat i := Some v]
      else xs @ replicate (nat i - length xs) None @ [Some v])"

section \<open>Position messages\<close>

subsection \<open>\<open>remove_position\<close> (lines 259-269)\<close>

definition remove_position :: "int \<Rightarrow> scene \<Rightarrow> scene" where
  "remove_position positionIdx sc =
     sc\<lparr>stages :=
          map (\<lambda>s. if 0 \<le> positionIdx \<and> positionIdx < int (length (stage_positions s))
                    then s\<lparr>stage_positions := filter_idx positionIdx (stage_positions s)\<rparr>
                    else s)
              (stages sc),
        positions := filter_idx_sparse positionIdx (positions sc),
        has_warnings := True\<rparr>"

subsection \<open>\<open>add_position\<close> (lines 284-292)\<close>

text \<open>
  The payload of a position-added message has two objects, \<open>position.info\<close> for the
  scene-level entry and \<open>position.position\<close> for the entry of each stage. The spread
  \<open>{ ...obj, id: generatePositionId() }\<close> keeps the object's fields and replaces its id.
  The id of the scene-level entry is drawn first, then one id per stage in list order.
\<close>

record added_position =
  info :: string
  stage_info :: string

fun push_each :: "entropy \<Rightarrow> string \<Rightarrow> stage list \<Rightarrow> nat \<Rightarrow> stage list \<times> nat" where
  "push_each env d [] k = ([], k)"
| "push_each env d (s # ss) k =
     (let s' = s\<lparr>stage_positions :=
                   stage_positions s @ [\<lparr>pid = Some (generatePositionId env k), pdata = d\<rparr>]\<rparr>;
          (ss', k') = push_each env d ss (Suc k)
      in (s' # ss', k'))"

definition add_position :: "entropy \<Rightarrow> added_position \<Rightarrow> scene \<Rightarrow> nat \<Rightarrow> scene \<times> nat" where
  "add_position env p sc k =
     (let newPosition = \<lparr>pid = Some (generatePositionId env k), pdata = info p\<rparr>;
          (stages', k') = push_each env (stage_info p) (stages sc) (Suc k)
      in (sc\<lparr>stages := stages',
             positions := positions sc @ [Some newPosition],
             has_warnings := True\<rparr>, k'))"

subsection \<open>The listeners (lines 255-316)\<close>

text \<open>
  Each listener tests \<open>scenes.length === 0 || activeScene.id === sceneId\<close>. With a
  non-empty list and no active scene, reading \<open>activeScene.id\<close> throws. With an empty
  list and no active scene, the updater runs on null and throws at its first property
  read. In the other branch the scene is looked up in \<open>scenes\<close> by id and the message is
  dropped when there is none.
\<close>

definition on_position_remove :: "ident \<Rightarrow> int \<Rightarrow> app_state \<Rightarrow> result" where
  "on_position_remove sceneId positionIdx st =
     (case activeScene st of
        None \<Rightarrow>
          if scenes st = [] then Inl (TypeError ''scene.stages'', st)
          else Inl (TypeError ''activeScene.id'', st)
      | Some a \<Rightarrow>
          if scenes st = [] \<or> scene_id a = sceneId
          then Inr (st\<lparr>activeScene := Some (remove_position positionIdx a)\<rparr>)
          else (case findIndex (\<lambda>it. scene_id it = sceneId) (scenes st) of
                  None \<Rightarrow> Inr st
                | Some idx \<Rightarrow>
                    Inr (st\<lparr>scenes :=
                              (scenes st)[idx := remove_position positionIdx (scenes st ! idx)]\<rparr>)))"

definition on_position_add :: "entropy \<Rightarrow> ident \<Rightarrow> added_position \<Rightarrow> app_state \<Rightarrow> result" where
  "on_position_add env sceneId p st =
     (case activeScene st of
        None \<Rightarrow>
          if scenes st = [] then Inl (TypeError ''scene.stages'', st\<lparr>drawn := Suc (drawn st)\<rparr>)
          else Inl (TypeError ''activeScene.id'', st)
      | Some a \<Rightarrow>
          if scenes st = [] \<or> scene_id a = sceneId
          then (let (a', k') = add_position env p a (drawn st)
                in Inr (st\<lparr>activeScene := Some a', drawn := k'\<rparr>))
          else (case findIndex (\<lambda>it. scene_id it = sceneId) (scenes st) of
                  None \<Rightarrow> Inr st
                | Some idx \<Rightarrow>
                    (let (sc', k') = add_position env p (scenes st ! idx) (drawn st)
                     in Inr (st\<lparr>scenes := (scenes st)[idx := sc'], drawn := k'\<rparr>))))"

text \<open>
  A position-changed message names its origin in \<open>stageId\<close>: the number \<open>0\<close> when the
  scene-level position panel sent it, a stage id otherwise.
\<close>

datatype origin = ScenePanel | StageEditor ident

definition change_position :: "entropy \<Rightarrow> int \<Rightarrow> string \<Rightarrow> scene \<Rightarrow> nat \<Rightarrow> scene \<times> nat" where
  "change_position env positionIdx payload sc k =
     (let newPosition = \<lparr>pid = Some (generatePositionId env k), pdata = payload\<rparr>
      in (sc\<lparr>positions := assign_idx positionIdx newPosition (positions sc)\<rparr>, Suc k))"

definition on_position_change ::
  "entropy \<Rightarrow> ident \<Rightarrow> origin \<Rightarrow> int \<Rightarrow> string \<Rightarrow> app_state \<Rightarrow> result" where
  "on_position_change env sceneId stageId positionIdx payload st =
     (if stageId = ScenePanel then Inr st
      else (case activeScene st of
              None \<Rightarrow>
                if scenes st = []
                then Inl (TypeError ''draft.positions'', st\<lparr>drawn := Suc (drawn st)\<rparr>)
                else Inl (TypeError ''activeScene.id'', st)
            | Some a \<Rightarrow>
                if scenes st = [] \<or> scene_id a = sceneId
                then (let (a', k') = change_position env positionIdx payload a (drawn st)
                      in Inr (st\<lparr>activeScene := Some a', drawn := k'\<rparr>))
                else Inr st))"

section \<open>The canvas\<close>

text \<open>
  The canvas is the X6 graph. Of X6 itself the model keeps what the editor relies on:
  \<open>getNodes\<close> lists the nodes in insertion order, \<open>addNode\<close> appends a node,
  \<open>clearCells\<close> empties the graph, \<open>node.prop(key, value)\<close> writes a property of the
  node with that id (\<open>getCellById\<close> finds it by id), \<open>addEdge\<close> appends an edge.
  An edge is the pair of its source and target node ids.
\<close>

definition getNodes :: "canvas \<Rightarrow> node list" where
  "getNodes g = nodes g"

definition find_node :: "ident \<Rightarrow> canvas \<Rightarrow> node option" where
  "find_node i g = find (\<lambda>n. node_id n = i) (getNodes g)"

definition clearCells :: "canvas \<Rightarrow> canvas" where
  "clearCells g = g\<lparr>nodes := [], edges := []\<rparr>"

definition node_prop :: "ident \<Rightarrow> (node \<Rightarrow> node) \<Rightarrow> canvas \<Rightarrow> canvas" where
  "node_prop i f g = g\<lparr>nodes := map (\<lambda>n. if node_id n = i then f n else n) (nodes g)\<rparr>"

definition addEdge :: "ident \<Rightarrow> ident \<Rightarrow> canvas \<Rightarrow> canvas" where
  "addEdge source target g = g\<lparr>edges := edges g @ [(source, target)]\<rparr>"

subsection \<open>\<open>addStageToGraph\<close> (lines 414-441)\<close>

definition gridSize :: int where
  "gridSize = 200"

text \<open>
  The cursor moves before the new node is built; the stored coordinates that
  \<open>setActiveScene\<close> passes as second and third argument are not parameters of the
  function and are dropped.
\<close>

definition advance_cursor :: "app_state \<Rightarrow> app_state" where
  "advance_cursor st =
     (if getNodes (canvas_of st) \<noteq> []
      then (let x = stageToGraphX st + gridSize
            in if x > clientWidth (canvas_of st) - gridSize
               then st\<lparr>stageToGraphX := 40, stageToGraphY := stageToGraphY st + gridSize\<rparr>
               else st\<lparr>stageToGraphX := x\<rparr>)
      else st)"

text \<open>
  Adding a node fires \<open>node:added\<close>, whose handler marks the scene dirty unless the
  guard \<open>inEdit\<close> is up (lines 136-139).
\<close>

definition addStageToGraph :: "stage \<Rightarrow> app_state \<Rightarrow> app_state" where
  "addStageToGraph stg st =
     (let st1 = advance_cursor st;
          n = \<lparr>node_id = stage_id stg, node_x = stageToGraphX st1, node_y = stageToGraphY st1,
               isStart = False, fixedLen = False, node_stage = None, node_scene = None\<rparr>;
          g = canvas_of st1
      in st1\<lparr>canvas_of := g\<lparr>nodes := nodes g @ [n]\<rparr>,
             edited := (if inEdit st1 then edited st1 else True)\<rparr>)"

subsection \<open>\<open>updateNodeProps\<close> (lines 443-448)\<close>

definition updateNodeProps :: "stage \<Rightarrow> ident \<Rightarrow> scene option \<Rightarrow> canvas \<Rightarrow> canvas" where
  "updateNodeProps stg i belongingScene g =
     node_prop i
       (\<lambda>n. n\<lparr>node_stage := Some stg,
               node_scene := belongingScene,
               fixedLen := fixed_len stg,
               isStart := (case belongingScene of
                             None \<Rightarrow> False
                           | Some b \<Rightarrow> root b = Some (stage_id stg))\<rparr>)
       g"

section \<open>The \<open>node:doMarkRoot\<close> handler (lines 161-169)\<close>

text \<open>The event carries a node of the canvas; the handler is given its id.\<close>

definition doMarkRoot :: "ident \<Rightarrow> app_state \<Rightarrow> result" where
  "doMarkRoot i st =
     (case activeScene st of
        None \<Rightarrow> Inl (TypeError ''prev.root'', st)
      | Some prev \<Rightarrow>
          (let g1 = (case root prev of
                       None \<Rightarrow> canvas_of st
                     | Some r \<Rightarrow> node_prop r (\<lambda>n. n\<lparr>isStart := False\<rparr>) (canvas_of st));
               g2 = node_prop i (\<lambda>n. n\<lparr>isStart := True\<rparr>) g1
           in Inr (st\<lparr>canvas_of := g2,
                      activeScene := Some (prev\<lparr>root := Some i\<rparr>),
                      edited := True\<rparr>)))"

section \<open>The \<open>on_stage_saved\<close> listener (lines 210-254)\<close>

record stage_saved =
  saved_scene :: ident
  saved_positions :: "position list"
  saved_stage :: stage

text \<open>
  The payload is destructured as \<open>{ scene, positions, stage }\<close>. The branch for a scene
  that is not the active one looks the scene up with
  \<open>scenes.findIndex(it => it.id === sceneId)\<close>, and no \<open>sceneId\<close> is in scope in this
  listener (nor in the module). The branch is only entered with a non-empty \<open>scenes\<close>
  list, so the test runs on its first element and the read of \<open>sceneId\<close> throws.
  Lines 223-228 and the \<open>updateScenes\<close> call of lines 250-252 are never reached.
\<close>

definition on_stage_saved :: "stage_saved \<Rightarrow> app_state \<Rightarrow> result" where
  "on_stage_saved msg st =
     (let stg = saved_stage msg in
      if scenes st \<noteq> [] \<and> activeScene st = None then Inl (TypeError ''activeScene.id'', st)
      else if scenes st = [] \<or> map_option scene_id (activeScene st) = Some (saved_scene msg)
      then
        (let st1 = (case find_node (stage_id stg) (canvas_of st) of
                      None \<Rightarrow> addStageToGraph stg st
                    | Some n \<Rightarrow> st);
             st2 = st1\<lparr>canvas_of :=
                         updateNodeProps stg (stage_id stg) (activeScene st) (canvas_of st1)\<rparr>
         in case activeScene st of
              None \<Rightarrow> Inl (TypeError ''updatedScene.stages'', st2)
            | Some updatedScene \<Rightarrow>
                (case findIndex (\<lambda>it. stage_id it = stage_id stg) (stages updatedScene) of
                   None \<Rightarrow>
                     (let pushed = stages updatedScene @ [stg]
                      in if length pushed = 1
                         then Inr (st2\<lparr>canvas_of :=
                                         node_prop (stage_id stg) (\<lambda>n. n\<lparr>isStart := True\<rparr>)
                                           (canvas_of st2),
                                       activeScene :=
                                         Some (updatedScene\<lparr>stages := pushed,
                                                 root := Some (stage_id stg),
                                                 positions := map Some (saved_positions msg)\<rparr>),
                                       edited := True\<rparr>)
                         else Inr (st2\<lparr>activeScene :=
                                         Some (updatedScene\<lparr>stages := pushed,
                                                 positions := map Some (saved_positions msg)\<rparr>),
                                       edited := True\<rparr>))
                 | Some editedStageIdx \<Rightarrow>
                     Inr (st2\<lparr>activeScene :=
                                Some (updatedScene\<lparr>stages :=
                                          (stages updatedScene)[editedStageIdx := stg],
                                        positions := map Some (saved_positions msg)\<rparr>),
                              edited := True\<rparr>)))
      else Inl (ReferenceError ''sceneId'', st))"

section \<open>\<open>setActiveScene\<close> (lines 367-412)\<close>

text \<open>
  With unsaved changes and the guard down, the function opens a modal and returns. The
  user's answer is a parameter: \<open>onOk\<close> raises the guard and calls the function again,
  \<open>onCancel\<close> does nothing.
\<close>

datatype answer = ContinueWithoutSaving | Cancel

text \<open>
  First loop: one node per entry of \<open>newscene.graph\<close>. An entry whose key is no stage of
  the scene makes \<open>addStageToGraph\<close> read \<open>stage.id\<close> of undefined, after the cursor
  has moved.
\<close>

fun add_stage_nodes :: "scene \<Rightarrow> (ident \<times> graph_entry) list \<Rightarrow> app_state \<Rightarrow> result" where
  "add_stage_nodes newscene [] st = Inr st"
| "add_stage_nodes newscene ((key, entry) # rest) st =
     (case find (\<lambda>stg. stage_id stg = key) (stages newscene) of
        None \<Rightarrow> Inl (TypeError ''stage.id'', advance_cursor st)
      | Some stg \<Rightarrow>
          (let st1 = addStageToGraph stg st
           in add_stage_nodes newscene rest
                (st1\<lparr>canvas_of := updateNodeProps stg (stage_id stg) (Some newscene) (canvas_of st1)\<rparr>)))"

text \<open>
  Second loop: one edge per stored destination, through the first port of the source
  node (a stage node has one), skipping a source or a target that is not on the canvas.
\<close>

fun add_dest_edges :: "node list \<Rightarrow> ident \<Rightarrow> ident list \<Rightarrow> canvas \<Rightarrow> canvas" where
  "add_dest_edges ns sourceid [] g = g"
| "add_dest_edges ns sourceid (targetid # rest) g =
     add_dest_edges ns sourceid rest
       (case find (\<lambda>n. node_id n = targetid) ns of
          None \<Rightarrow> g
        | Some target \<Rightarrow> addEdge sourceid targetid g)"

fun add_stored_edges :: "node list \<Rightarrow> (ident \<times> graph_entry) list \<Rightarrow> canvas \<Rightarrow> canvas" where
  "add_stored_edges ns [] g = g"
| "add_stored_edges ns ((sourceid, entry) # rest) g =
     add_stored_edges ns rest
       (if dest entry = [] then g
        else (case find (\<lambda>n. node_id n = sourceid) ns of
                None \<Rightarrow> g
              | Some sourceNode \<Rightarrow> add_dest_edges ns sourceid (dest entry) g))"

definition rebuild :: "scene \<Rightarrow> app_state \<Rightarrow> result" where
  "rebuild newscene st =
     (let st1 = st\<lparr>inEdit := True\<rparr>;
          st2 = st1\<lparr>canvas_of := clearCells (canvas_of st1)\<rparr>;
          st3 = st2\<lparr>activeScene := Some newscene\<rparr>
      in case add_stage_nodes newscene (graph newscene) st3 of
           Inl err \<Rightarrow> Inl err
         | Inr st4 \<Rightarrow>
             Inr (st4\<lparr>canvas_of :=
                        add_stored_edges (getNodes (canvas_of st4)) (graph newscene) (canvas_of st4),
                      inEdit := False,
                      edited := False\<rparr>))"

definition setActiveScene :: "answer \<Rightarrow> scene \<Rightarrow> app_state \<Rightarrow> result" where
  "setActiveScene ans newscene st =
     (if \<not> inEdit st \<and> edited st
      then (case ans of
              Cancel \<Rightarrow> Inr st
            | ContinueWithoutSaving \<Rightarrow> rebuild newscene (st\<lparr>inEdit := True\<rparr>))
      else rebuild newscene st)"

section \<open>\<open>saveScene\<close> (lines 450-527)\<close>

subsection \<open>\<open>graph.getSuccessors\<close>\<close>

text \<open>
  \<open>getSuccessors(startNode)\<close> is X6's depth-first search along outgoing edges: it keeps
  a stack and a visited table, visits each node once, follows an edge only to a target
  that is a node of the graph, and reports every visited node except the start node
  itself. The table of visited nodes is kept here as its complement, the ids not yet
  visited. The editor reads only the length of the answer.
\<close>

definition neighbours :: "(ident \<times> ident) list \<Rightarrow> ident \<Rightarrow> ident list" where
  "neighbours es x = map snd (filter (\<lambda>e. fst e = x) es)"

function depthFirstSearch :: "(ident \<times> ident) list \<Rightarrow> ident list \<Rightarrow> ident list \<Rightarrow> ident list" where
  "depthFirstSearch es unvisited [] = []"
| "depthFirstSearch es unvisited (x # stack) =
     (if x \<in> set unvisited
      then x # depthFirstSearch es (removeAll x unvisited) (neighbours es x @ stack)
      else depthFirstSearch es unvisited stack)"
  by pat_completeness auto
termination
proof (relation "measures [\<lambda>(es, unvisited, stack). length unvisited,
                           \<lambda>(es, unvisited, stack). length stack]")
  show "wf (measures [\<lambda>(es, unvisited, stack). length unvisited,
                      \<lambda>(es, unvisited, stack). length stack])"
    by simp
next
  fix es :: "(ident \<times> ident) list" and unvisited stack :: "ident list" and x :: ident
  assume "x \<in> set unvisited"
  then have "length (removeAll x unvisited) < length unvisited"
    by (rule length_removeAll_less)
  then show "((es, removeAll x unvisited, neighbours es x @ stack), es, unvisited, x # stack)
               \<in> measures [\<lambda>(es, unvisited, stack). length unvisited,
                            \<lambda>(es, unvisited, stack). length stack]"
    by simp
next
  fix es :: "(ident \<times> ident) list" and unvisited stack :: "ident list" and x :: ident
  show "((es, unvisited, stack), es, unvisited, x # stack)
          \<in> measures [\<lambda>(es, unvisited, stack). length unvisited,
                       \<lambda>(es, unvisited, stack). length stack]"
    by simp
qed

definition getSuccessors :: "canvas \<Rightarrow> node \<Rightarrow> ident list" where
  "getSuccessors g startNode =
     filter (\<lambda>x. x \<noteq> node_id startNode)
       (depthFirstSearch (edges g) (map node_id (nodes g)) [node_id startNode])"

subsection \<open>The saved layout\<close>

text \<open>
  The \<open>graph\<close> field of the saved scene: for every node its coordinates and the
  targets of its outgoing edges.
\<close>

definition serialize_graph :: "canvas \<Rightarrow> (ident \<times> graph_entry) list" where
  "serialize_graph g =
     map (\<lambda>n. (node_id n,
                \<lparr>gx = node_x n, gy = node_y n, dest = neighbours (edges g) (node_id n)\<rparr>))
         (getNodes g)"

subsection \<open>The function\<close>

text \<open>
  \<open>saveScene\<close> shows notifications and, unless it returns early, calls the persistence
  command \<open>save_scene\<close> with the scene it built. It writes nothing to the component state
  itself; the state is written when the call is acknowledged (lines 513-526). The
  \<open>Missing Name\<close> notification carries the click handler that focuses the name field.
\<close>

datatype notification = MissingName | MissingStartAnimation | UnreachableStages

record save_outcome =
  notified :: "notification list"
  save_scene_call :: "scene option"

definition saveScene :: "app_state \<Rightarrow> js_error + save_outcome" where
  "saveScene st =
     (case activeScene st of
        None \<Rightarrow> Inl (TypeError ''activeScene.name'')
      | Some a \<Rightarrow>
          (let doSave = (name a \<noteq> []);
               notes1 = (if name a = [] then [MissingName] else []);
               ns = getNodes (canvas_of st);
               (has_warnings', notes2) =
                  (case find (\<lambda>n. Some (node_id n) = root a) ns of
                     None \<Rightarrow> (True, [MissingStartAnimation])
                   | Some startNode \<Rightarrow>
                       if int (length (getSuccessors (canvas_of st) startNode)) + 1
                            < int (length ns)
                       then (True, [UnreachableStages])
                       else (False, []))
           in if \<not> doSave \<or> \<not> edited st
              then Inr \<lparr>notified = notes1 @ notes2, save_scene_call = None\<rparr>
              else Inr \<lparr>notified = notes1 @ notes2,
                        save_scene_call =
                          Some (a\<lparr>graph := serialize_graph (canvas_of st),
                                  has_warnings := has_warnings'\<rparr>)\<rparr>))"

text \<open>The acknowledgement of \<open>save_scene\<close> (lines 513-526).\<close>

definition save_acknowledged :: "scene \<Rightarrow> app_state \<Rightarrow> app_state" where
  "save_acknowledged sc st =
     st\<lparr>activeScene := Some sc,
        scenes := (case findIndex (\<lambda>it. scene_id it = scene_id sc) (scenes st) of
                     None \<Rightarrow> scenes st @ [sc]
                   | Some w \<Rightarrow> (scenes st)[w := sc]),
        edited := False\<rparr>"

text \<open>A whole save: the function, then the acknowledgement of the call it made, if any.\<close>

definition save :: "app_state \<Rightarrow> app_state" where
  "save st =
     (case saveScene st of
        Inl err \<Rightarrow> st
      | Inr out \<Rightarrow> (case save_scene_call out of
                      None \<Rightarrow> st
                    | Some sc \<Rightarrow> save_acknowledged sc st))"

section \<open>Properties the data model asks for\<close>

text \<open>
  Index-parallel position lists: every slot of \<open>scene.positions\<close> holds a position, and
  the list of every stage has as many entries as \<open>scene.positions\<close> has slots.
\<close>

definition positions_parallel :: "scene \<Rightarrow> bool" where
  "positions_parallel sc =
     (list_all (\<lambda>s. length (stage_positions s) = length (positions sc)) (stages sc)
      \<and> list_all (\<lambda>p. p \<noteq> None) (positions sc))"

text \<open>
  Where a scene lives in the state: it is the active scene, or it is at an index of the
  \<open>scenes\<close> list.
\<close>

datatype slot = Active | Listed nat

fun scene_in :: "slot \<Rightarrow> app_state \<Rightarrow> scene option" where
  "scene_in Active st = activeScene st"
| "scene_in (Listed i) st = (if i < length (scenes st) then Some (scenes st ! i) else None)"

text \<open>
  A run of position messages. A listener that throws is over, and the next message is
  delivered to the state it left.
\<close>

datatype position_message = PositionAdded ident added_position | PositionRemoved ident int

definition on_position_message :: "entropy \<Rightarrow> position_message \<Rightarrow> app_state \<Rightarrow> result" where
  "on_position_message env msg st =
     (case msg of
        PositionAdded sceneId p \<Rightarrow> on_position_add env sceneId p st
      | PositionRemoved sceneId positionIdx \<Rightarrow> on_position_remove sceneId positionIdx st)"

fun process :: "entropy \<Rightarrow> position_message list \<Rightarrow> app_state \<Rightarrow> app_state" where
  "process env [] st = st"
| "process env (msg # msgs) st = process env msgs (deliver (on_position_message env msg) st)"

text \<open>
  The scene a position message with a given scene id is applied to: the active scene
  when the list of scenes is empty or the id is the active scene's, else the first scene
  of the list with that id.
\<close>

definition target_scene :: "ident \<Rightarrow> app_state \<Rightarrow> scene option" where
  "target_scene sceneId st =
     (case activeScene st of
        None \<Rightarrow> None
      | Some a \<Rightarrow>
          if scenes st = [] \<or> scene_id a = sceneId then Some a
          else map_option (\<lambda>idx. scenes st ! idx)
                 (findIndex (\<lambda>it. scene_id it = sceneId) (scenes st)))"

text \<open>
  The stages reachable from the start stage by following outgoing edges, the start stage
  itself not counted. An edge counts when both its ends are nodes of the canvas.
\<close>

definition edges_within :: "(ident \<times> ident) list \<Rightarrow> ident set \<Rightarrow> (ident \<times> ident) set" where
  "edges_within es U = {(x, y). (x, y) \<in> set es \<and> x \<in> U \<and> y \<in> U}"

definition reachable_stages :: "canvas \<Rightarrow> node \<Rightarrow> ident set" where
  "reachable_stages g startNode =
     {y. (node_id startNode, y) \<in> (edges_within (edges g) (set (map node_id (getNodes g))))\<^sup>*}
       - {node_id startNode}"

text \<open>
  Start flags mirror \<open>root\<close>: a node is flagged as start only if it is the node of the
  root stage.
\<close>

definition start_nodes :: "canvas \<Rightarrow> node list" where
  "start_nodes g = filter isStart (getNodes g)"

definition start_mirrors_root :: "app_state \<Rightarrow> bool" where
  "start_mirrors_root st =
     list_all (\<lambda>n. map_option root (activeScene st) = Some (Some (node_id n)))
       (start_nodes (canvas_of st))"

section \<open>A small project\<close>

definition stageA :: stage where
  "stageA = \<lparr>stage_id = ''A'', stage_positions = [\<lparr>pid = Some ''a0'', pdata = ''lead''\<rparr>],
              fixed_len = False, stage_data = []\<rparr>"

definition stageB :: stage where
  "stageB = \<lparr>stage_id = ''B'', stage_positions = [\<lparr>pid = Some ''b0'', pdata = ''lead''\<rparr>],
              fixed_len = False, stage_data = []\<rparr>"

definition stageC :: stage where
  "stageC = \<lparr>stage_id = ''C'', stage_positions = [\<lparr>pid = Some ''c0'', pdata = ''lead''\<rparr>],
              fixed_len = True, stage_data = []\<rparr>"

definition sceneABC :: scene where
  "sceneABC = \<lparr>scene_id = ''s1'', name = ''Demo'', root = Some ''A'',
                stages = [stageA, stageB, stageC],
                positions = [Some \<lparr>pid = Some ''p0'', pdata = ''lead''\<rparr>],
                graph = [], furniture = [], tags = [], is_private = False,
                has_warnings = False\<rparr>"

definition sceneBlank :: scene where
  "sceneBlank = \<lparr>scene_id = ''s2'', name = [], root = None, stages = [], positions = [],
                  graph = [], furniture = [], tags = [], is_private = False,
                  has_warnings = False\<rparr>"

definition stage_node :: "stage \<Rightarrow> int \<Rightarrow> bool \<Rightarrow> node" where
  "stage_node stg x start =
     \<lparr>node_id = stage_id stg, node_x = x, node_y = 40, isStart = start,
      fixedLen = fixed_len stg, node_stage = Some stg, node_scene = None\<rparr>"

definition canvasABC :: canvas where
  "canvasABC = \<lparr>nodes = [stage_node stageA 40 True, stage_node stageB 240 False,
                           stage_node stageC 440 False],
                 edges = [(''A'', ''B'')], clientWidth = 1000\<rparr>"

definition editingABC :: app_state where
  "editingABC = \<lparr>canvas_of = canvasABC, scenes = [sceneABC, sceneBlank],
                  activeScene = Some sceneABC, edited = True, inEdit = False,
                  stageToGraphX = 440, stageToGraphY = 40, drawn = 0\<rparr>"

definition editingBlank :: app_state where
  "editingBlank = \<lparr>canvas_of = \<lparr>nodes = [], edges = [], clientWidth = 1000\<rparr>,
                    scenes = [sceneABC, sceneBlank],
                    activeScene = Some sceneBlank, edited = True, inEdit = False,
                    stageToGraphX = 40, stageToGraphY = 40, drawn = 0\<rparr>"

definition unlisted :: app_state where
  "unlisted = editingABC\<lparr>scenes := []\<rparr>"

definition ticking :: entropy where
  "ticking k = \<lparr>now = k, random36 = ''0.4fzyo82mvyr''\<rparr>"

definition added :: added_position where
  "added = \<lparr>info = ''second'', stage_info = ''second''\<rparr>"

definition traffic :: "position_message list" where
  "traffic = [PositionAdded ''s1'' added, PositionRemoved ''s1'' 0, PositionRemoved ''s2'' 5,
              PositionAdded ''s2'' added, PositionRemoved ''zz'' 0]"

text \<open>What of a draw enters the id: the millisecond and nine characters of the random number.\<close>

definition draw_key :: "entropy \<Rightarrow> nat \<Rightarrow> nat \<times> string" where
  "draw_key env k = (now (env k), substr 2 9 (random36 (env k)))"

text \<open>
  The ids of the entries most recently appended to a scene: those of the last \<open>m\<close> slots
  of \<open>scene.positions\<close>, then those of the last \<open>m\<close> entries of each stage.
\<close>

definition lastn :: "nat \<Rightarrow> 'a list \<Rightarrow> 'a list" where
  "lastn m xs = drop (length xs - m) xs"

definition appended_ids :: "nat \<Rightarrow> scene \<Rightarrow> ident option list" where
  "appended_ids m sc =
     map (\<lambda>slot. case slot of None \<Rightarrow> None | Some p \<Rightarrow> pid p) (lastn m (positions sc))
     @ concat (map (\<lambda>s. map pid (lastn m (stage_positions s))) (stages sc))"

definition stageD :: stage where
  "stageD = \<lparr>stage_id = ''D'', stage_positions = [\<lparr>pid = Some ''d0'', pdata = ''lead''\<rparr>],
              fixed_len = False, stage_data = []\<rparr>"

definition savedD :: stage_saved where
  "savedD = \<lparr>saved_scene = ''nowhere'',
              saved_positions = [\<lparr>pid = Some ''p0'', pdata = ''lead''\<rparr>],
              saved_stage = stageD\<rparr>"

definition savedForBlank :: stage_saved where
  "savedForBlank = \<lparr>saved_scene = ''s2'',
                     saved_positions = [\<lparr>pid = Some ''p0'', pdata = ''lead''\<rparr>],
                     saved_stage = stageD\<rparr>"

text \<open>
  A stage-saved message for the active scene \<open>s1\<close> that carries no positions, and the
  states after it and after a position-removed message at index 0.
\<close>

definition savedB :: stage_saved where
  "savedB = \<lparr>saved_scene = ''s1'', saved_positions = [], saved_stage = stageB\<rparr>"

definition afterSaveB :: app_state where
  "afterSaveB = deliver (on_stage_saved savedB) editingABC"

definition afterRemoveB :: app_state where
  "afterRemoveB = deliver (on_position_remove ''s1'' 0) afterSaveB"

text \<open>
  A clock and a random generator that give the same millisecond and the same number
  at every call, and the states after one and after two position-added messages drawn
  from them.
\<close>

definition frozen :: entropy where
  "frozen k = \<lparr>now = 7, random36 = ''0.i''\<rparr>"

definition afterAdd :: app_state where
  "afterAdd = deliver (on_position_add frozen ''s1'' added) editingABC"

definition afterReplay :: app_state where
  "afterReplay = deliver (on_position_add frozen ''s1'' added) afterAdd"

section \<open>Verification\<close>

subsection \<open>Removing by index, adding at the end\<close>

lemma filter_enumerate_idx:
  "map snd (filter (\<lambda>(k, x). int k \<noteq> i) (enumerate n xs)) =
     (if int n \<le> i \<and> i < int n + int (length xs)
      then take (nat i - n) xs @ drop (Suc (nat i - n)) xs else xs)"
proof (induction xs arbitrary: n)
  case Nil
  then show ?case by simp
next
  case (Cons x xs)
  show ?case
  proof (cases "int n = i")
    case True
    have "map snd (filter (\<lambda>(k, x). int k \<noteq> i) (enumerate (Suc n) xs)) = xs"
      using Cons.IH [of "Suc n"] True by simp
    with True show ?thesis by simp
  next
    case False
    show ?thesis
    proof (cases "int n < i \<and> i < int n + int (length (x # xs))")
      case True
      then have "Suc (nat i - Suc n) = nat i - n" "nat i - n = Suc (nat i - Suc n)" by linarith+
      with True False show ?thesis
        using Cons.IH [of "Suc n"] by (simp add: take_Cons' drop_Cons')
    next
      case False
      with \<open>int n \<noteq> i\<close> show ?thesis
        using Cons.IH [of "Suc n"] by (auto split: if_splits)
    qed
  qed
qed

lemma filter_idx_eq:
  "filter_idx i xs =
     (if 0 \<le> i \<and> i < int (length xs) then take (nat i) xs @ drop (Suc (nat i)) xs else xs)"
  using filter_enumerate_idx [of i 0 xs] by (simp add: filter_idx_def)

lemma length_filter_idx:
  "length (filter_idx i xs) =
     (if 0 \<le> i \<and> i < int (length xs) then length xs - 1 else length xs)"
  by (auto simp: filter_idx_eq)

lemma filter_idx_sparse_dense:
  "list_all (\<lambda>p. p \<noteq> None) xs \<Longrightarrow> filter_idx_sparse i xs = filter_idx i xs"
proof -
  assume d: "list_all (\<lambda>p. p \<noteq> None) xs"
  have "\<And>n. filter (\<lambda>(k, x). x \<noteq> None \<and> int k \<noteq> i) (enumerate n xs)
          = filter (\<lambda>(k, x). int k \<noteq> i) (enumerate n xs)"
    using d by (induction xs) auto
  then show ?thesis by (simp add: filter_idx_sparse_def filter_idx_def)
qed

lemma set_filter_idx: "set (filter_idx i xs) \<subseteq> set xs"
  by (auto simp: filter_idx_eq dest: in_set_takeD in_set_dropD)

lemma dense_filter_idx:
  "list_all (\<lambda>p. p \<noteq> None) xs \<Longrightarrow> list_all (\<lambda>p. p \<noteq> None) (filter_idx i xs)"
  using set_filter_idx [of i xs] unfolding list_all_iff by blast

lemma remove_position_parallel:
  assumes "positions_parallel sc"
  shows "positions_parallel (remove_position i sc)"
proof -
  from assms have d: "list_all (\<lambda>p. p \<noteq> None) (positions sc)"
    and l: "\<forall>s\<in>set (stages sc). length (stage_positions s) = length (positions sc)"
    by (simp_all add: positions_parallel_def list_all_iff)
  have p: "positions (remove_position i sc) = filter_idx i (positions sc)"
    by (simp add: remove_position_def filter_idx_sparse_dense [OF d])
  have "\<forall>s\<in>set (stages (remove_position i sc)).
          length (stage_positions s) = length (filter_idx i (positions sc))"
    using l by (auto simp: remove_position_def length_filter_idx)
  with p dense_filter_idx [OF d, of i] show ?thesis
    by (simp add: positions_parallel_def list_all_iff)
qed

lemma push_each_eq:
  "push_each env d ss k =
     (map (\<lambda>(j, s). s\<lparr>stage_positions :=
              stage_positions s @ [\<lparr>pid = Some (generatePositionId env j), pdata = d\<rparr>]\<rparr>)
          (enumerate k ss), k + length ss)"
  by (induction ss arbitrary: k) auto

lemma push_each_lengths:
  "map (\<lambda>s. length (stage_positions s)) (fst (push_each env d ss k))
     = map (\<lambda>s. Suc (length (stage_positions s))) ss"
  by (induction ss arbitrary: k) (simp_all add: split_beta)

lemma add_position_eq:
  "add_position env p sc k =
     (sc\<lparr>stages := map (\<lambda>(j, s). s\<lparr>stage_positions :=
              stage_positions s @ [\<lparr>pid = Some (generatePositionId env j), pdata = stage_info p\<rparr>]\<rparr>)
          (enumerate (Suc k) (stages sc)),
         positions := positions sc @ [Some \<lparr>pid = Some (generatePositionId env k), pdata = info p\<rparr>],
         has_warnings := True\<rparr>, Suc k + length (stages sc))"
  by (simp add: add_position_def push_each_eq)

lemma scene_id_remove_position [simp]: "scene_id (remove_position i sc) = scene_id sc"
  by (simp add: remove_position_def)

lemma scene_id_add_position [simp]: "scene_id (fst (add_position env p sc k)) = scene_id sc"
  by (simp add: add_position_eq)

lemma add_position_parallel:
  "positions_parallel sc \<Longrightarrow> positions_parallel (fst (add_position env p sc k))"
  by (auto simp: positions_parallel_def add_position_eq list_all_iff in_set_enumerate_eq)

lemma findIndex_Some: "findIndex P xs = Some i \<Longrightarrow> i < length xs \<and> P (xs ! i)"
  by (induction xs arbitrary: i) (auto split: if_splits)

lemma scene_in_active_update:
  "scene_in s (st\<lparr>activeScene := Some b\<rparr>) = (if s = Active then Some b else scene_in s st)"
  by (cases s) simp_all

lemma scene_in_list_update:
  "idx < length (scenes st) \<Longrightarrow>
     scene_in s (st\<lparr>scenes := (scenes st)[idx := b]\<rparr>)
       = (if s = Listed idx then Some b else scene_in s st)"
  by (cases s) (auto simp: nth_list_update)

lemma scene_in_drawn [simp]: "scene_in s (st\<lparr>drawn := k\<rparr>) = scene_in s st"
  by (cases s) simp_all

lemma remove_keeps_slot:
  assumes "scene_in s st = Some sc" and "positions_parallel sc"
  shows "\<exists>sc'. scene_in s (deliver (on_position_remove sceneId i) st) = Some sc'
           \<and> scene_id sc' = scene_id sc \<and> positions_parallel sc'"
proof (cases "activeScene st")
  case None
  with assms show ?thesis by (simp add: deliver_def on_position_remove_def)
next
  case (Some a)
  show ?thesis
  proof (cases "scenes st = [] \<or> scene_id a = sceneId")
    case True
    with Some have "deliver (on_position_remove sceneId i) st
                      = st\<lparr>activeScene := Some (remove_position i a)\<rparr>"
      by (simp add: deliver_def on_position_remove_def)
    with assms Some show ?thesis
      by (cases "s = Active") (auto simp: scene_in_active_update remove_position_parallel)
  next
    case False
    show ?thesis
    proof (cases "findIndex (\<lambda>it. scene_id it = sceneId) (scenes st)")
      case None
      with False Some assms show ?thesis by (simp add: deliver_def on_position_remove_def)
    next
      case (Some idx)
      then have lt: "idx < length (scenes st)" by (simp add: findIndex_Some)
      from False Some \<open>activeScene st = Some a\<close>
      have "deliver (on_position_remove sceneId i) st
              = st\<lparr>scenes := (scenes st)[idx := remove_position i (scenes st ! idx)]\<rparr>"
        by (simp add: deliver_def on_position_remove_def)
      with assms lt show ?thesis
        by (cases "s = Listed idx") (auto simp: scene_in_list_update remove_position_parallel)
    qed
  qed
qed

lemma add_keeps_slot:
  assumes "scene_in s st = Some sc" and "positions_parallel sc"
  shows "\<exists>sc'. scene_in s (deliver (on_position_add env sceneId p) st) = Some sc'
           \<and> scene_id sc' = scene_id sc \<and> positions_parallel sc'"
proof (cases "activeScene st")
  case None
  with assms show ?thesis by (auto simp: deliver_def on_position_add_def)
next
  case (Some a)
  show ?thesis
  proof (cases "scenes st = [] \<or> scene_id a = sceneId")
    case True
    with Some have "deliver (on_position_add env sceneId p) st
                      = st\<lparr>activeScene := Some (fst (add_position env p a (drawn st))),
                           drawn := snd (add_position env p a (drawn st))\<rparr>"
      by (simp add: deliver_def on_position_add_def split_beta)
    with assms Some show ?thesis
      by (cases s) (auto simp: add_position_parallel split: if_splits)
  next
    case False
    show ?thesis
    proof (cases "findIndex (\<lambda>it. scene_id it = sceneId) (scenes st)")
      case None
      with False Some assms show ?thesis by (simp add: deliver_def on_position_add_def)
    next
      case (Some idx)
      then have lt: "idx < length (scenes st)" by (simp add: findIndex_Some)
      from False Some \<open>activeScene st = Some a\<close>
      have "deliver (on_position_add env sceneId p) st
              = st\<lparr>scenes := (scenes st)[idx := fst (add_position env p (scenes st ! idx) (drawn st))],
                   drawn := snd (add_position env p (scenes st ! idx) (drawn st))\<rparr>"
        by (simp add: deliver_def on_position_add_def split_beta)
      with assms lt show ?thesis
        by (cases s) (auto simp: nth_list_update add_position_parallel split: if_splits)
    qed
  qed
qed

lemma message_keeps_slot:
  assumes "scene_in s st = Some sc" and "positions_parallel sc"
  shows "\<exists>sc'. scene_in s (deliver (on_position_message env msg) st) = Some sc'
           \<and> scene_id sc' = scene_id sc \<and> positions_parallel sc'"
proof (cases msg)
  case (PositionAdded sceneId p)
  then have "on_position_message env msg = on_position_add env sceneId p"
    by (intro ext) (simp add: on_position_message_def)
  with add_keeps_slot [OF assms] show ?thesis by simp
next
  case (PositionRemoved sceneId i)
  then have "on_position_message env msg = on_position_remove sceneId i"
    by (intro ext) (simp add: on_position_message_def)
  with remove_keeps_slot [OF assms] show ?thesis by simp
qed

lemma process_keeps_slot:
  "scene_in s st = Some sc \<Longrightarrow> positions_parallel sc \<Longrightarrow>
     \<exists>sc'. scene_in s (process env msgs st) = Some sc'
        \<and> scene_id sc' = scene_id sc \<and> positions_parallel sc'"
proof (induction msgs arbitrary: st sc)
  case Nil
  then show ?case by simp
next
  case (Cons msg msgs)
  from message_keeps_slot [OF Cons.prems, of env msg] obtain sc1
    where 1: "scene_in s (deliver (on_position_message env msg) st) = Some sc1"
      and 2: "scene_id sc1 = scene_id sc" "positions_parallel sc1" by blast
  from Cons.IH [OF 1 2(2)] 2(1) show ?case by simp
qed

lemma remove_position_in_range:
  assumes "positions_parallel sc" and "0 \<le> i" and "i < int (length (positions sc))"
  shows "positions (remove_position i sc)
           = take (nat i) (positions sc) @ drop (Suc (nat i)) (positions sc)"
    and "map stage_positions (stages (remove_position i sc))
           = map (\<lambda>stg. take (nat i) (stage_positions stg) @ drop (Suc (nat i)) (stage_positions stg))
               (stages sc)"
proof -
  from assms(1) have d: "list_all (\<lambda>p. p \<noteq> None) (positions sc)"
    and l: "\<forall>s\<in>set (stages sc). length (stage_positions s) = length (positions sc)"
    by (simp_all add: positions_parallel_def list_all_iff)
  show "positions (remove_position i sc)
           = take (nat i) (positions sc) @ drop (Suc (nat i)) (positions sc)"
    using assms(2,3) by (simp add: remove_position_def filter_idx_sparse_dense [OF d] filter_idx_eq)
  show "map stage_positions (stages (remove_position i sc))
           = map (\<lambda>stg. take (nat i) (stage_positions stg) @ drop (Suc (nat i)) (stage_positions stg))
               (stages sc)"
    using assms(2,3) l by (simp add: remove_position_def filter_idx_eq)
qed

lemma add_position_appends:
  "positions (fst (add_position env p sc n))
     = positions sc @ [Some \<lparr>pid = Some (generatePositionId env n), pdata = info p\<rparr>]"
  "map (\<lambda>stg. length (stage_positions stg)) (stages (fst (add_position env p sc n)))
     = map (\<lambda>stg. Suc (length (stage_positions stg))) (stages sc)"
  by (simp_all add: add_position_def split_beta push_each_lengths)

lemma findIndex_update:
  "findIndex P xs = Some i \<Longrightarrow> P y \<Longrightarrow> findIndex P (xs[i := y]) = Some i"
proof (induction xs arbitrary: i)
  case Nil
  then show ?case by simp
next
  case (Cons x xs)
  show ?case
  proof (cases "P x")
    case True
    with Cons.prems show ?thesis by simp
  next
    case False
    with Cons.prems obtain j where j: "findIndex P xs = Some j" "i = Suc j"
      by (auto split: if_splits)
    with Cons.IH [OF j(1) Cons.prems(2)] False show ?thesis by simp
  qed
qed

lemma on_position_remove_target:
  assumes "target_scene sceneId st = Some sc"
  shows "\<exists>st'. on_position_remove sceneId i st = Inr st'
           \<and> target_scene sceneId st' = Some (remove_position i sc)
           \<and> drawn st' = drawn st"
proof -
  from assms obtain a where a: "activeScene st = Some a"
    by (auto simp: target_scene_def split: option.splits)
  show ?thesis
  proof (cases "scenes st = [] \<or> scene_id a = sceneId")
    case True
    with a assms have "sc = a" by (simp add: target_scene_def)
    with True a show ?thesis
      by (auto simp: on_position_remove_def target_scene_def)
  next
    case False
    with a assms obtain idx where idx: "findIndex (\<lambda>it. scene_id it = sceneId) (scenes st) = Some idx"
      and sc: "sc = scenes st ! idx"
      by (auto simp: target_scene_def)
    from findIndex_Some [OF idx] have lt: "idx < length (scenes st)"
      and sid: "scene_id (scenes st ! idx) = sceneId" by simp_all
    have "findIndex (\<lambda>it. scene_id it = sceneId)
            ((scenes st)[idx := remove_position i (scenes st ! idx)]) = Some idx"
      using idx sid by (intro findIndex_update) simp_all
    with False a idx sc lt show ?thesis
      by (simp add: on_position_remove_def target_scene_def)
  qed
qed

lemma on_position_add_target:
  assumes "target_scene sceneId st = Some sc"
  shows "\<exists>st'. on_position_add env sceneId p st = Inr st'
           \<and> target_scene sceneId st' = Some (fst (add_position env p sc (drawn st)))
           \<and> drawn st' = Suc (drawn st) + length (stages sc)"
proof -
  from assms obtain a where a: "activeScene st = Some a"
    by (auto simp: target_scene_def split: option.splits)
  show ?thesis
  proof (cases "scenes st = [] \<or> scene_id a = sceneId")
    case True
    with a assms have "sc = a" by (simp add: target_scene_def)
    with True a show ?thesis
      by (auto simp: on_position_add_def target_scene_def add_position_eq)
  next
    case False
    with a assms obtain idx where idx: "findIndex (\<lambda>it. scene_id it = sceneId) (scenes st) = Some idx"
      and sc: "sc = scenes st ! idx"
      by (auto simp: target_scene_def)
    from findIndex_Some [OF idx] have lt: "idx < length (scenes st)"
      and sid: "scene_id (scenes st ! idx) = sceneId" by simp_all
    have "findIndex (\<lambda>it. scene_id it = sceneId)
            ((scenes st)[idx := fst (add_position env p (scenes st ! idx) (drawn st))]) = Some idx"
      using idx sid by (intro findIndex_update) simp_all
    with False a idx sc lt show ?thesis
      by (simp add: on_position_add_def target_scene_def add_position_eq)
  qed
qed

lemma add_position_stage_lists:
  "map stage_positions (stages (fst (add_position env p sc n)))
     = map (\<lambda>(j, stg). stage_positions stg
                @ [\<lparr>pid = Some (generatePositionId env j), pdata = stage_info p\<rparr>])
         (enumerate (Suc n) (stages sc))"
  by (simp add: add_position_eq split_beta)

text \<open>
  C1. Take any scene of the state, the active one or one of the list, whose position
  lists are index-parallel. After each message of any sequence of position-added and
  position-removed messages the scene is still in its place, under its id, and every
  stage's list is as long as \<open>scene.positions\<close>: its position lists are index-parallel.
  On such a scene an addition appends one entry at the end of \<open>scene.positions\<close> and
  one entry at the end of every stage's list, the entries before it staying where they
  were, and a removal at an index inside \<open>scene.positions\<close> deletes that index from
  \<open>scene.positions\<close> and from every stage's list. These two are what the listeners
  do to the scene a message is for.
\<close>

theorem positions_stay_parallel:
  assumes "scene_in s st = Some sc" and "positions_parallel sc"
  shows "(\<forall>k\<le>length msgs.
           \<exists>sc'. scene_in s (process env (take k msgs) st) = Some sc'
              \<and> scene_id sc' = scene_id sc
              \<and> list_all (\<lambda>stg. length (stage_positions stg) = length (positions sc')) (stages sc')
              \<and> positions_parallel sc')
       \<and> positions (fst (add_position env p sc n))
            = positions sc @ [Some \<lparr>pid = Some (generatePositionId env n), pdata = info p\<rparr>]
       \<and> map stage_positions (stages (fst (add_position env p sc n)))
            = map (\<lambda>(j, stg). stage_positions stg
                      @ [\<lparr>pid = Some (generatePositionId env j), pdata = stage_info p\<rparr>])
                (enumerate (Suc n) (stages sc))
       \<and> map (\<lambda>stg. length (stage_positions stg)) (stages (fst (add_position env p sc n)))
            = map (\<lambda>stg. Suc (length (stage_positions stg))) (stages sc)
       \<and> (0 \<le> i \<and> i < int (length (positions sc)) \<longrightarrow>
            positions (remove_position i sc)
              = take (nat i) (positions sc) @ drop (Suc (nat i)) (positions sc)
          \<and> map stage_positions (stages (remove_position i sc))
              = map (\<lambda>stg. take (nat i) (stage_positions stg) @ drop (Suc (nat i)) (stage_positions stg))
                  (stages sc))
       \<and> (target_scene sceneId st = Some sc \<longrightarrow>
            (\<exists>st'. on_position_add env sceneId p st = Inr st'
                 \<and> target_scene sceneId st' = Some (fst (add_position env p sc (drawn st))))
          \<and> (\<exists>st'. on_position_remove sceneId i st = Inr st'
                 \<and> target_scene sceneId st' = Some (remove_position i sc)))"
proof -
  have a: "\<forall>k\<le>length msgs.
           \<exists>sc'. scene_in s (process env (take k msgs) st) = Some sc'
              \<and> scene_id sc' = scene_id sc
              \<and> list_all (\<lambda>stg. length (stage_positions stg) = length (positions sc')) (stages sc')
              \<and> positions_parallel sc'"
    using process_keeps_slot [OF assms] by (auto simp: positions_parallel_def)
  have b: "target_scene sceneId st = Some sc \<longrightarrow>
            (\<exists>st'. on_position_add env sceneId p st = Inr st'
                 \<and> target_scene sceneId st' = Some (fst (add_position env p sc (drawn st))))
          \<and> (\<exists>st'. on_position_remove sceneId i st = Inr st'
                 \<and> target_scene sceneId st' = Some (remove_position i sc))"
    using on_position_add_target [of sceneId st sc env p]
      on_position_remove_target [of sceneId st sc i] by blast
  from a b add_position_appends [of env p sc n] add_position_stage_lists [of env p sc n]
    remove_position_in_range [OF assms(2), of i]
  show ?thesis by blast
qed

theorem positions_stay_parallel_witness:
  "scene_in Active editingABC = Some sceneABC \<and> positions_parallel sceneABC
   \<and> (\<exists>sc'. scene_in Active (process ticking (take 1 traffic) editingABC) = Some sc'
          \<and> map stage_positions (stages sc')
               = [[\<lparr>pid = Some ''a0'', pdata = ''lead''\<rparr>,
                   \<lparr>pid = Some ''1_4fzyo82mv'', pdata = ''second''\<rparr>],
                  [\<lparr>pid = Some ''b0'', pdata = ''lead''\<rparr>,
                   \<lparr>pid = Some ''2_4fzyo82mv'', pdata = ''second''\<rparr>],
                  [\<lparr>pid = Some ''c0'', pdata = ''lead''\<rparr>,
                   \<lparr>pid = Some ''3_4fzyo82mv'', pdata = ''second''\<rparr>]]
          \<and> positions sc' = [Some \<lparr>pid = Some ''p0'', pdata = ''lead''\<rparr>,
                              Some \<lparr>pid = Some ''0_4fzyo82mv'', pdata = ''second''\<rparr>]
          \<and> positions_parallel sc')
   \<and> (\<exists>sc'. scene_in Active (process ticking traffic editingABC) = Some sc'
          \<and> map stage_positions (stages sc')
               = [[\<lparr>pid = Some ''1_4fzyo82mv'', pdata = ''second''\<rparr>],
                  [\<lparr>pid = Some ''2_4fzyo82mv'', pdata = ''second''\<rparr>],
                  [\<lparr>pid = Some ''3_4fzyo82mv'', pdata = ''second''\<rparr>]]
          \<and> positions sc' = [Some \<lparr>pid = Some ''0_4fzyo82mv'', pdata = ''second''\<rparr>]
          \<and> positions_parallel sc')"
proof -
  have h: "scene_in Active editingABC = Some sceneABC" "positions_parallel sceneABC"
    by (simp_all add: editingABC_def positions_parallel_def sceneABC_def stageA_def stageB_def
        stageC_def)
  note T = positions_stay_parallel [OF h, where msgs = traffic and env = ticking,
      THEN conjunct1]
  have "1 \<le> length traffic" "length traffic \<le> length traffic" by (simp_all add: traffic_def)
  with T obtain sc1 sc2 where
    1: "scene_in Active (process ticking (take 1 traffic) editingABC) = Some sc1"
       "positions_parallel sc1"
    and 2: "scene_in Active (process ticking (take (length traffic) traffic) editingABC) = Some sc2"
       "positions_parallel sc2"
    by blast
  have e1: "map stage_positions
              (stages (the (scene_in Active (process ticking (take 1 traffic) editingABC))))
               = [[\<lparr>pid = Some ''a0'', pdata = ''lead''\<rparr>,
                   \<lparr>pid = Some ''1_4fzyo82mv'', pdata = ''second''\<rparr>],
                  [\<lparr>pid = Some ''b0'', pdata = ''lead''\<rparr>,
                   \<lparr>pid = Some ''2_4fzyo82mv'', pdata = ''second''\<rparr>],
                  [\<lparr>pid = Some ''c0'', pdata = ''lead''\<rparr>,
                   \<lparr>pid = Some ''3_4fzyo82mv'', pdata = ''second''\<rparr>]]"
    "positions (the (scene_in Active (process ticking (take 1 traffic) editingABC)))
       = [Some \<lparr>pid = Some ''p0'', pdata = ''lead''\<rparr>,
          Some \<lparr>pid = Some ''0_4fzyo82mv'', pdata = ''second''\<rparr>]"
    by code_simp+
  have e2: "map stage_positions
              (stages (the (scene_in Active (process ticking traffic editingABC))))
               = [[\<lparr>pid = Some ''1_4fzyo82mv'', pdata = ''second''\<rparr>],
                  [\<lparr>pid = Some ''2_4fzyo82mv'', pdata = ''second''\<rparr>],
                  [\<lparr>pid = Some ''3_4fzyo82mv'', pdata = ''second''\<rparr>]]"
    "positions (the (scene_in Active (process ticking traffic editingABC)))
       = [Some \<lparr>pid = Some ''0_4fzyo82mv'', pdata = ''second''\<rparr>]"
    by code_simp+
  from 1 2 e1 e2 h show ?thesis by simp
qed

subsection \<open>An index outside the scene's positions\<close>

lemma remove_position_out_of_range:
  assumes "positions_parallel sc"
    and "positionIdx < 0 \<or> int (length (positions sc)) \<le> positionIdx"
  shows "remove_position positionIdx sc = sc\<lparr>has_warnings := True\<rparr>"
proof -
  from assms(1) have d: "list_all (\<lambda>p. p \<noteq> None) (positions sc)"
    and l: "\<forall>s\<in>set (stages sc). length (stage_positions s) = length (positions sc)"
    by (simp_all add: positions_parallel_def list_all_iff)
  have "filter_idx_sparse positionIdx (positions sc) = positions sc"
    using assms(2) by (auto simp: filter_idx_sparse_dense [OF d] filter_idx_eq)
  moreover have "map (\<lambda>s. if 0 \<le> positionIdx \<and> positionIdx < int (length (stage_positions s))
                    then s\<lparr>stage_positions := filter_idx positionIdx (stage_positions s)\<rparr>
                    else s) (stages sc) = stages sc"
    using assms(2) l by (intro map_idI) auto
  ultimately show ?thesis by (simp add: remove_position_def)
qed

lemma filter_sparse_enumerate_outside:
  "i < int n \<or> int n + int (length xs) \<le> i \<Longrightarrow>
     map snd (filter (\<lambda>(k, x). x \<noteq> None \<and> int k \<noteq> i) (enumerate n xs))
       = filter (\<lambda>x. x \<noteq> None) xs"
proof (induction xs arbitrary: n)
  case Nil
  then show ?case by simp
next
  case (Cons x xs)
  from Cons.prems have "i < int (Suc n) \<or> int (Suc n) + int (length xs) \<le> i" by auto
  from Cons.IH [OF this] Cons.prems show ?case by auto
qed

lemma filter_idx_sparse_outside:
  "i < 0 \<or> int (length xs) \<le> i \<Longrightarrow> filter_idx_sparse i xs = filter (\<lambda>x. x \<noteq> None) xs"
  using filter_sparse_enumerate_outside [of i 0 xs] by (simp add: filter_idx_sparse_def)

lemma map_fixes_iff: "(map f xs = xs) = (\<forall>x\<in>set xs. f x = x)"
  by (induction xs) auto

lemma stage_kept_iff:
  "((if 0 \<le> i \<and> i < int (length (stage_positions s))
     then s\<lparr>stage_positions := filter_idx i (stage_positions s)\<rparr> else s) = s)
   = (\<not> (0 \<le> i \<and> i < int (length (stage_positions s))))"
proof (cases "0 \<le> i \<and> i < int (length (stage_positions s))")
  case True
  then have "length (filter_idx i (stage_positions s)) \<noteq> length (stage_positions s)"
    by (auto simp: length_filter_idx)
  then have "s\<lparr>stage_positions := filter_idx i (stage_positions s)\<rparr> \<noteq> s"
    by (metis stage.select_convs(2) stage.surjective stage.update_convs(2))
  with True show ?thesis by simp
next
  case False
  then show ?thesis by auto
qed

lemma remove_position_outside:
  assumes "i < 0 \<or> int (length (positions sc)) \<le> i"
  shows "(positions (remove_position i sc) = positions sc)
           = list_all (\<lambda>p. p \<noteq> None) (positions sc)"
    and "(stages (remove_position i sc) = stages sc)
           = list_all (\<lambda>stg. \<not> (0 \<le> i \<and> i < int (length (stage_positions stg)))) (stages sc)"
    and "has_warnings (remove_position i sc)"
proof -
  show "(positions (remove_position i sc) = positions sc)
           = list_all (\<lambda>p. p \<noteq> None) (positions sc)"
    using assms by (simp add: remove_position_def filter_idx_sparse_outside filter_id_conv list_all_iff)
  show "(stages (remove_position i sc) = stages sc)
           = list_all (\<lambda>stg. \<not> (0 \<le> i \<and> i < int (length (stage_positions stg)))) (stages sc)"
    by (simp add: remove_position_def map_fixes_iff stage_kept_iff list_all_iff)
  show "has_warnings (remove_position i sc)" by (simp add: remove_position_def)
qed

text \<open>
  C10. A position-removed message whose index is negative or not below the length of
  \<open>scene.positions\<close> always sets \<open>has_warnings\<close> on the scene it is for. It leaves
  \<open>scene.positions\<close> as it was exactly when that array has no hole, and it leaves the
  stages as they were exactly when the index is also outside the list of every stage:
  each stage is tested against the length of its own list. On a scene with index-parallel
  position lists both hold, and the scene is what it was except for \<open>has_warnings\<close>.
\<close>

theorem out_of_range_remove_only_warns:
  assumes "target_scene sceneId st = Some sc"
    and "positionIdx < 0 \<or> int (length (positions sc)) \<le> positionIdx"
  shows "\<exists>st' sc'. on_position_remove sceneId positionIdx st = Inr st'
           \<and> target_scene sceneId st' = Some sc'
           \<and> has_warnings sc'
           \<and> (positions sc' = positions sc) = list_all (\<lambda>p. p \<noteq> None) (positions sc)
           \<and> (stages sc' = stages sc)
                = list_all (\<lambda>stg. \<not> (0 \<le> positionIdx
                                       \<and> positionIdx < int (length (stage_positions stg))))
                    (stages sc)
           \<and> (positions_parallel sc \<longrightarrow>
                 positions sc' = positions sc \<and> stages sc' = stages sc
                 \<and> sc' = sc\<lparr>has_warnings := True\<rparr>)"
proof -
  from on_position_remove_target [OF assms(1), of positionIdx] obtain st'
    where 1: "on_position_remove sceneId positionIdx st = Inr st'"
      and 2: "target_scene sceneId st' = Some (remove_position positionIdx sc)" by blast
  have 3: "positions_parallel sc \<longrightarrow>
             positions (remove_position positionIdx sc) = positions sc
           \<and> stages (remove_position positionIdx sc) = stages sc
           \<and> remove_position positionIdx sc = sc\<lparr>has_warnings := True\<rparr>"
    using remove_position_out_of_range [OF _ assms(2)] by simp
  from 1 2 3 remove_position_outside [OF assms(2)] show ?thesis by blast
qed

theorem out_of_range_remove_only_warns_witness:
  "target_scene ''s1'' editingABC = Some sceneABC
   \<and> ((7::int) < 0 \<or> int (length (positions sceneABC)) \<le> 7)
   \<and> positions_parallel sceneABC
   \<and> (\<exists>st' sc'. on_position_remove ''s1'' 7 editingABC = Inr st'
           \<and> target_scene ''s1'' st' = Some sc'
           \<and> positions sc' = positions sceneABC
           \<and> stages sc' = stages sceneABC
           \<and> has_warnings sc'
           \<and> sc' = sceneABC\<lparr>has_warnings := True\<rparr>)"
proof -
  have t: "target_scene ''s1'' editingABC = Some sceneABC"
    by (simp add: target_scene_def editingABC_def sceneABC_def)
  have p: "positions_parallel sceneABC"
    by (simp add: positions_parallel_def sceneABC_def stageA_def stageB_def stageC_def)
  have r: "(7::int) < 0 \<or> int (length (positions sceneABC)) \<le> 7"
    by (simp add: sceneABC_def)
  from out_of_range_remove_only_warns [OF t r] p obtain st' sc' where
    "on_position_remove ''s1'' 7 editingABC = Inr st'" "target_scene ''s1'' st' = Some sc'"
    "has_warnings sc'" "positions sc' = positions sceneABC" "stages sc' = stages sceneABC"
    "sc' = sceneABC\<lparr>has_warnings := True\<rparr>"
    by blast
  with t p r show ?thesis by blast
qed

text \<open>
  The claim as it stands fails on a scene whose stage lists are longer than
  \<open>scene.positions\<close>. A stage-saved message with an empty positions payload leaves the
  active scene with no positions and three stages of one position each; index 0 is then
  outside \<open>scene.positions\<close>, and the position-removed message empties all three lists.
\<close>

theorem out_of_range_remove_deletes_counterexample:
  "on_stage_saved savedB editingABC = Inr afterSaveB
   \<and> map_option positions (target_scene ''s1'' afterSaveB) = Some []
   \<and> map_option (map stage_positions \<circ> stages) (target_scene ''s1'' afterSaveB)
        = Some [[\<lparr>pid = Some ''a0'', pdata = ''lead''\<rparr>],
                [\<lparr>pid = Some ''b0'', pdata = ''lead''\<rparr>],
                [\<lparr>pid = Some ''c0'', pdata = ''lead''\<rparr>]]
   \<and> on_position_remove ''s1'' 0 afterSaveB = Inr afterRemoveB
   \<and> map_option positions (target_scene ''s1'' afterRemoveB) = Some []
   \<and> map_option (map stage_positions \<circ> stages) (target_scene ''s1'' afterRemoveB)
        = Some [[], [], []]"
  by code_simp

subsection \<open>An empty list of scenes\<close>

lemma filter_sparse_enumerate:
  "map snd (filter (\<lambda>(k, x). x \<noteq> None \<and> int k \<noteq> i) (enumerate n xs))
     = filter (\<lambda>x. x \<noteq> None) (map snd (filter (\<lambda>(k, x). int k \<noteq> i) (enumerate n xs)))"
  by (induction xs arbitrary: n) auto

lemma filter_idx_sparse_eq:
  "filter_idx_sparse i xs
     = filter (\<lambda>x. x \<noteq> None)
         (if 0 \<le> i \<and> i < int (length xs) then take (nat i) xs @ drop (Suc (nat i)) xs else xs)"
  using filter_sparse_enumerate [of i 0 xs] filter_idx_eq [of i xs]
  by (simp add: filter_idx_sparse_def filter_idx_def)

lemma remove_position_eq:
  "remove_position i sc =
     sc\<lparr>stages :=
          map (\<lambda>stg. if 0 \<le> i \<and> i < int (length (stage_positions stg))
                      then stg\<lparr>stage_positions :=
                                 take (nat i) (stage_positions stg)
                                 @ drop (Suc (nat i)) (stage_positions stg)\<rparr>
                      else stg)
              (stages sc),
        positions :=
          filter (\<lambda>x. x \<noteq> None)
            (if 0 \<le> i \<and> i < int (length (positions sc))
             then take (nat i) (positions sc) @ drop (Suc (nat i)) (positions sc)
             else positions sc),
        has_warnings := True\<rparr>"
proof -
  have "map (\<lambda>s. if 0 \<le> i \<and> i < int (length (stage_positions s))
                    then s\<lparr>stage_positions := filter_idx i (stage_positions s)\<rparr>
                    else s) (stages sc)
      = map (\<lambda>stg. if 0 \<le> i \<and> i < int (length (stage_positions stg))
                      then stg\<lparr>stage_positions :=
                                 take (nat i) (stage_positions stg)
                                 @ drop (Suc (nat i)) (stage_positions stg)\<rparr>
                      else stg) (stages sc)"
    by (rule map_cong) (simp_all add: filter_idx_eq)
  then show ?thesis
    by (simp add: remove_position_def filter_idx_sparse_eq)
qed

text \<open>
  C9. With an empty \<open>scenes\<close> list and an active scene, each of the four listeners
  applies its message to the active scene whatever scene id the message carries. A
  position-removed message deletes the index from the list of every stage that has it
  and from \<open>scene.positions\<close> (whose holes go too) and sets \<open>has_warnings\<close>. A
  position-added message appends a newly identified entry to \<open>scene.positions\<close> and to
  the list of every stage and sets \<open>has_warnings\<close>. A position-changed message writes a
  newly identified entry at its index of \<open>scene.positions\<close>, growing the array when
  the index is beyond it, unless the message came from the scene-level panel, which is
  skipped before any scene id is looked at. A stage-saved message does what it does
  for a message addressed to the active scene, leaving the saved stage and the saved
  positions in it.
\<close>

theorem empty_scene_list_skips_id_match:
  assumes "scenes st = []" and "activeScene st = Some a"
  shows "on_position_remove sceneId positionIdx st =
           Inr (st\<lparr>activeScene := Some (a\<lparr>stages :=
                  map (\<lambda>stg. if 0 \<le> positionIdx \<and> positionIdx < int (length (stage_positions stg))
                              then stg\<lparr>stage_positions :=
                                         take (nat positionIdx) (stage_positions stg)
                                         @ drop (Suc (nat positionIdx)) (stage_positions stg)\<rparr>
                              else stg)
                      (stages a),
                positions :=
                  filter (\<lambda>x. x \<noteq> None)
                    (if 0 \<le> positionIdx \<and> positionIdx < int (length (positions a))
                     then take (nat positionIdx) (positions a)
                          @ drop (Suc (nat positionIdx)) (positions a)
                     else positions a),
                has_warnings := True\<rparr>)\<rparr>)
       \<and> on_position_add env sceneId p st =
           Inr (st\<lparr>activeScene := Some (a\<lparr>stages :=
                  map (\<lambda>(j, stg). stg\<lparr>stage_positions := stage_positions stg
                          @ [\<lparr>pid = Some (generatePositionId env j), pdata = stage_info p\<rparr>]\<rparr>)
                      (enumerate (Suc (drawn st)) (stages a)),
                positions := positions a
                  @ [Some \<lparr>pid = Some (generatePositionId env (drawn st)), pdata = info p\<rparr>],
                has_warnings := True\<rparr>),
              drawn := Suc (drawn st) + length (stages a)\<rparr>)
       \<and> on_position_change env sceneId stageId positionIdx payload st =
           (if stageId = ScenePanel then Inr st
            else Inr (st\<lparr>activeScene := Some (a\<lparr>positions :=
                   (if positionIdx < 0 then positions a
                    else if nat positionIdx < length (positions a)
                    then (positions a)[nat positionIdx :=
                           Some \<lparr>pid = Some (generatePositionId env (drawn st)), pdata = payload\<rparr>]
                    else positions a
                         @ replicate (nat positionIdx - length (positions a)) None
                         @ [Some \<lparr>pid = Some (generatePositionId env (drawn st)),
                                  pdata = payload\<rparr>])\<rparr>),
                 drawn := Suc (drawn st)\<rparr>))
       \<and> on_position_remove sceneId positionIdx st =
           Inr (st\<lparr>activeScene := Some (remove_position positionIdx a)\<rparr>)
       \<and> on_position_add env sceneId p st =
           Inr (st\<lparr>activeScene := Some (fst (add_position env p a (drawn st))),
                   drawn := snd (add_position env p a (drawn st))\<rparr>)
       \<and> on_position_change env sceneId stageId positionIdx payload st =
           (if stageId = ScenePanel then Inr st
            else Inr (st\<lparr>activeScene := Some (fst (change_position env positionIdx payload a (drawn st))),
                         drawn := snd (change_position env positionIdx payload a (drawn st))\<rparr>))
       \<and> on_stage_saved msg st = on_stage_saved (msg\<lparr>saved_scene := scene_id a\<rparr>) st
       \<and> (\<exists>st' a'. on_stage_saved msg st = Inr st' \<and> activeScene st' = Some a'
             \<and> saved_stage msg \<in> set (stages a')
             \<and> positions a' = map Some (saved_positions msg)
             \<and> scene_id a' = scene_id a)"
proof -
  have 1: "on_position_remove sceneId positionIdx st =
           Inr (st\<lparr>activeScene := Some (remove_position positionIdx a)\<rparr>)"
    using assms by (simp add: on_position_remove_def)
  have 2: "on_position_add env sceneId p st =
           Inr (st\<lparr>activeScene := Some (fst (add_position env p a (drawn st))),
                   drawn := snd (add_position env p a (drawn st))\<rparr>)"
    using assms by (simp add: on_position_add_def split: prod.splits)
  have 3: "on_position_change env sceneId stageId positionIdx payload st =
           (if stageId = ScenePanel then Inr st
            else Inr (st\<lparr>activeScene := Some (fst (change_position env positionIdx payload a (drawn st))),
                         drawn := snd (change_position env positionIdx payload a (drawn st))\<rparr>))"
    using assms by (simp add: on_position_change_def split: prod.splits)
  note e1 = 1 [unfolded remove_position_eq]
  note e2 = 2 [unfolded add_position_eq fst_conv snd_conv]
  have e3: "on_position_change env sceneId stageId positionIdx payload st =
           (if stageId = ScenePanel then Inr st
            else Inr (st\<lparr>activeScene := Some (a\<lparr>positions :=
                   (if positionIdx < 0 then positions a
                    else if nat positionIdx < length (positions a)
                    then (positions a)[nat positionIdx :=
                           Some \<lparr>pid = Some (generatePositionId env (drawn st)), pdata = payload\<rparr>]
                    else positions a
                         @ replicate (nat positionIdx - length (positions a)) None
                         @ [Some \<lparr>pid = Some (generatePositionId env (drawn st)),
                                  pdata = payload\<rparr>])\<rparr>),
                 drawn := Suc (drawn st)\<rparr>))"
    unfolding 3 by (simp add: change_position_def assign_idx_def Let_def)
  have 4: "on_stage_saved msg st = on_stage_saved (msg\<lparr>saved_scene := scene_id a\<rparr>) st"
    using assms by (simp add: on_stage_saved_def Let_def split: option.splits)
  have 5: "\<exists>st' a'. on_stage_saved msg st = Inr st' \<and> activeScene st' = Some a'
             \<and> saved_stage msg \<in> set (stages a')
             \<and> positions a' = map Some (saved_positions msg)
             \<and> scene_id a' = scene_id a"
  proof (cases "findIndex (\<lambda>it. stage_id it = stage_id (saved_stage msg)) (stages a)")
    case None
    with assms show ?thesis
      by (simp add: on_stage_saved_def Let_def)
  next
    case (Some idx)
    from findIndex_Some [OF Some] have "idx < length (stages a)" by simp
    then have "saved_stage msg \<in> set ((stages a)[idx := saved_stage msg])"
      by (simp add: set_update_memI)
    with assms Some show ?thesis
      by (simp add: on_stage_saved_def Let_def)
  qed
  from e1 e2 e3 1 2 3 4 5 show ?thesis by blast
qed

theorem empty_scene_list_skips_id_match_witness:
  "scenes unlisted = [] \<and> activeScene unlisted = Some sceneABC
   \<and> scene_id sceneABC = ''s1''
   \<and> on_position_remove ''nowhere'' 0 unlisted =
         Inr (unlisted\<lparr>activeScene := Some (sceneABC\<lparr>stages :=
                [stageA\<lparr>stage_positions := []\<rparr>, stageB\<lparr>stage_positions := []\<rparr>,
                 stageC\<lparr>stage_positions := []\<rparr>],
              positions := [], has_warnings := True\<rparr>)\<rparr>)
   \<and> on_position_add ticking ''nowhere'' added unlisted =
         Inr (unlisted\<lparr>activeScene := Some (sceneABC\<lparr>stages :=
                [stageA\<lparr>stage_positions := [\<lparr>pid = Some ''a0'', pdata = ''lead''\<rparr>,
                                              \<lparr>pid = Some ''1_4fzyo82mv'', pdata = ''second''\<rparr>]\<rparr>,
                 stageB\<lparr>stage_positions := [\<lparr>pid = Some ''b0'', pdata = ''lead''\<rparr>,
                                              \<lparr>pid = Some ''2_4fzyo82mv'', pdata = ''second''\<rparr>]\<rparr>,
                 stageC\<lparr>stage_positions := [\<lparr>pid = Some ''c0'', pdata = ''lead''\<rparr>,
                                              \<lparr>pid = Some ''3_4fzyo82mv'', pdata = ''second''\<rparr>]\<rparr>],
              positions := [Some \<lparr>pid = Some ''p0'', pdata = ''lead''\<rparr>,
                            Some \<lparr>pid = Some ''0_4fzyo82mv'', pdata = ''second''\<rparr>],
              has_warnings := True\<rparr>),
            drawn := 4\<rparr>)
   \<and> on_position_change ticking ''nowhere'' (StageEditor ''B'') 0 ''moved'' unlisted =
         Inr (unlisted\<lparr>activeScene := Some (sceneABC\<lparr>positions :=
                [Some \<lparr>pid = Some ''0_4fzyo82mv'', pdata = ''moved''\<rparr>]\<rparr>),
              drawn := 1\<rparr>)
   \<and> on_position_change ticking ''nowhere'' (StageEditor ''B'') 2 ''moved'' unlisted =
         Inr (unlisted\<lparr>activeScene := Some (sceneABC\<lparr>positions :=
                [Some \<lparr>pid = Some ''p0'', pdata = ''lead''\<rparr>, None,
                 Some \<lparr>pid = Some ''0_4fzyo82mv'', pdata = ''moved''\<rparr>]\<rparr>),
              drawn := 1\<rparr>)
   \<and> on_position_change ticking ''nowhere'' ScenePanel 0 ''moved'' unlisted = Inr unlisted
   \<and> (\<exists>st' a'. on_stage_saved savedD unlisted = Inr st' \<and> activeScene st' = Some a'
             \<and> saved_stage savedD \<in> set (stages a')
             \<and> positions a' = map Some (saved_positions savedD)
             \<and> scene_id a' = ''s1'')"
proof -
  have e: "scenes unlisted = []" and a: "activeScene unlisted = Some sceneABC"
    by (simp_all add: unlisted_def editingABC_def)
  have n: "scene_id sceneABC = ''s1''" by (simp add: sceneABC_def)
  have d: "drawn unlisted = 0" by (simp add: unlisted_def editingABC_def)
  have ids: "generatePositionId ticking 0 = ''0_4fzyo82mv''"
    "generatePositionId ticking (Suc 0) = ''1_4fzyo82mv''"
    "generatePositionId ticking 2 = ''2_4fzyo82mv''"
    "generatePositionId ticking 3 = ''3_4fzyo82mv''"
    by code_simp+
  note T = empty_scene_list_skips_id_match [OF e a, where env = ticking and p = added
      and sceneId = "''nowhere''" and payload = "''moved''" and msg = savedD]
  note T0 = T [where positionIdx = 0 and stageId = "StageEditor ''B''"]
  have 1: "on_position_remove ''nowhere'' 0 unlisted =
         Inr (unlisted\<lparr>activeScene := Some (sceneABC\<lparr>stages :=
                [stageA\<lparr>stage_positions := []\<rparr>, stageB\<lparr>stage_positions := []\<rparr>,
                 stageC\<lparr>stage_positions := []\<rparr>],
              positions := [], has_warnings := True\<rparr>)\<rparr>)"
    unfolding T0 [THEN conjunct1] by code_simp
  have 2: "on_position_add ticking ''nowhere'' added unlisted =
         Inr (unlisted\<lparr>activeScene := Some (sceneABC\<lparr>stages :=
                [stageA\<lparr>stage_positions := [\<lparr>pid = Some ''a0'', pdata = ''lead''\<rparr>,
                                              \<lparr>pid = Some ''1_4fzyo82mv'', pdata = ''second''\<rparr>]\<rparr>,
                 stageB\<lparr>stage_positions := [\<lparr>pid = Some ''b0'', pdata = ''lead''\<rparr>,
                                              \<lparr>pid = Some ''2_4fzyo82mv'', pdata = ''second''\<rparr>]\<rparr>,
                 stageC\<lparr>stage_positions := [\<lparr>pid = Some ''c0'', pdata = ''lead''\<rparr>,
                                              \<lparr>pid = Some ''3_4fzyo82mv'', pdata = ''second''\<rparr>]\<rparr>],
              positions := [Some \<lparr>pid = Some ''p0'', pdata = ''lead''\<rparr>,
                            Some \<lparr>pid = Some ''0_4fzyo82mv'', pdata = ''second''\<rparr>],
              has_warnings := True\<rparr>),
            drawn := 4\<rparr>)"
    unfolding T0 [THEN conjunct2, THEN conjunct1] by code_simp
  have 3: "on_position_change ticking ''nowhere'' (StageEditor ''B'') 0 ''moved'' unlisted =
         Inr (unlisted\<lparr>activeScene := Some (sceneABC\<lparr>positions :=
                [Some \<lparr>pid = Some ''0_4fzyo82mv'', pdata = ''moved''\<rparr>]\<rparr>),
              drawn := 1\<rparr>)"
    unfolding T0 [THEN conjunct2, THEN conjunct2, THEN conjunct1] by code_simp
  have 4: "on_position_change ticking ''nowhere'' (StageEditor ''B'') 2 ''moved'' unlisted =
         Inr (unlisted\<lparr>activeScene := Some (sceneABC\<lparr>positions :=
                [Some \<lparr>pid = Some ''p0'', pdata = ''lead''\<rparr>, None,
                 Some \<lparr>pid = Some ''0_4fzyo82mv'', pdata = ''moved''\<rparr>]\<rparr>),
              drawn := 1\<rparr>)"
    unfolding T [where positionIdx = 2 and stageId = "StageEditor ''B''",
        THEN conjunct2, THEN conjunct2, THEN conjunct1]
    by code_simp
  have 5: "on_position_change ticking ''nowhere'' ScenePanel 0 ''moved'' unlisted = Inr unlisted"
    unfolding T [where positionIdx = 0 and stageId = ScenePanel,
        THEN conjunct2, THEN conjunct2, THEN conjunct1]
    by simp
  from T0 obtain st' a' where "on_stage_saved savedD unlisted = Inr st'"
    "activeScene st' = Some a'" "saved_stage savedD \<in> set (stages a')"
    "positions a' = map Some (saved_positions savedD)"
    "scene_id a' = scene_id sceneABC"
    by blast
  with n have 6: "\<exists>st' a'. on_stage_saved savedD unlisted = Inr st' \<and> activeScene st' = Some a'
             \<and> saved_stage savedD \<in> set (stages a')
             \<and> positions a' = map Some (saved_positions savedD)
             \<and> scene_id a' = ''s1''"
    by auto
  from e a n 1 2 3 4 5 6 show ?thesis by blast
qed

subsection \<open>Replaying an addition\<close>

lemma lastn_2_append [simp]: "lastn 2 (xs @ [a, b]) = [a, b]"
  by (simp add: lastn_def)

lemma push_each_twice_ids:
  "concat (map (\<lambda>s. map pid (lastn 2 (stage_positions s)))
      (fst (push_each env d (fst (push_each env d ss k1)) k2)))
   = concat (map (\<lambda>j. [Some (generatePositionId env (k1 + j)),
                        Some (generatePositionId env (k2 + j))]) [0..<length ss])"
proof (induction ss arbitrary: k1 k2)
  case Nil
  then show ?case by simp
next
  case (Cons s ss)
  have "[0..<length (s # ss)] = 0 # map Suc [0..<length ss]"
    by (simp add: upt_conv_Cons map_Suc_upt del: upt_Suc)
  then show ?case
    using Cons.IH [of "Suc k1" "Suc k2"]
    by (simp add: split_beta comp_def del: upt_Suc)
qed

lemma length_fst_push_each: "length (fst (push_each env d ss k)) = length ss"
  by (simp add: push_each_eq)

lemma interleaved_draws:
  "a + n \<le> b \<Longrightarrow>
     distinct (concat (map (\<lambda>j. [a + j, b + j]) [0..<n]))
     \<and> set (concat (map (\<lambda>j. [a + j, b + j]) [0..<n])) = {a..<a + n} \<union> {b..<b + n}"
proof (induction n)
  case 0
  then show ?case by simp
next
  case (Suc n)
  then have "distinct (concat (map (\<lambda>j. [a + j, b + j]) [0..<n]))"
    and "set (concat (map (\<lambda>j. [a + j, b + j]) [0..<n])) = {a..<a + n} \<union> {b..<b + n}"
    by simp_all
  with Suc.prems show ?case by auto
qed

lemma digit10_inj: "a < 10 \<Longrightarrow> b < 10 \<Longrightarrow> digit10 a = digit10 b \<Longrightarrow> a = b"
  by (simp add: digit10_def)

lemma digit10_not_underscore: "a < 10 \<Longrightarrow> digit10 a \<noteq> CHR ''_''"
  by (simp add: digit10_def char_of_eq_iff take_bit_eq_mod)

lemma decimal_digits: "CHR ''_'' \<notin> set (decimal n)"
proof (induction n rule: decimal.induct)
  case (1 n)
  show ?case
  proof (cases "n < 10")
    case True
    then show ?thesis
      using digit10_not_underscore [of n] by (subst decimal.simps) auto
  next
    case False
    have "n mod 10 < 10" by simp
    with False 1 show ?thesis
      using digit10_not_underscore [of "n mod 10"] by (subst decimal.simps) auto
  qed
qed

lemma decimal_nonempty: "decimal n \<noteq> []"
  by (subst decimal.simps) simp

lemma decimal_inj: "decimal n = decimal m \<Longrightarrow> n = m"
proof (induction n arbitrary: m rule: decimal.induct)
  case (1 n)
  show ?case
  proof (cases "n < 10")
    case True
    note n = True
    show ?thesis
    proof (cases "m < 10")
      case True
      with n "1.prems" show ?thesis
        by (simp add: decimal.simps [of n] decimal.simps [of m] digit10_inj)
    next
      case False
      with n "1.prems" decimal_nonempty [of "m div 10"] show ?thesis
        by (simp add: decimal.simps [of n] decimal.simps [of m])
    qed
  next
    case False
    note n = False
    show ?thesis
    proof (cases "m < 10")
      case True
      with n "1.prems" decimal_nonempty [of "n div 10"] show ?thesis
        by (simp add: decimal.simps [of n] decimal.simps [of m])
    next
      case False
      with n "1.prems" have "decimal (n div 10) = decimal (m div 10)"
        and "digit10 (n mod 10) = digit10 (m mod 10)"
        by (simp_all add: decimal.simps [of n] decimal.simps [of m])
      with "1.IH" [OF n] have "n div 10 = m div 10" "n mod 10 = m mod 10"
        by (auto intro: digit10_inj)
      then show ?thesis by (metis div_mult_mod_eq)
    qed
  qed
qed

lemma split_at_first:
  "c \<notin> set xs \<Longrightarrow> c \<notin> set xs' \<Longrightarrow> xs @ c # ys = xs' @ c # ys' \<Longrightarrow> xs = xs' \<and> ys = ys'"
proof (induction xs arbitrary: xs')
  case Nil
  then show ?case by (cases xs') auto
next
  case (Cons x xs)
  then show ?case by (cases xs') auto
qed

lemma generatePositionId_eq_iff:
  "generatePositionId env i = generatePositionId env j
     \<longleftrightarrow> now (env i) = now (env j)
         \<and> substr 2 9 (random36 (env i)) = substr 2 9 (random36 (env j))"
proof
  assume "generatePositionId env i = generatePositionId env j"
  then have "decimal (now (env i)) @ CHR ''_'' # substr 2 9 (random36 (env i))
           = decimal (now (env j)) @ CHR ''_'' # substr 2 9 (random36 (env j))"
    by (simp add: generatePositionId_def)
  from split_at_first [OF decimal_digits decimal_digits this]
  show "now (env i) = now (env j)
         \<and> substr 2 9 (random36 (env i)) = substr 2 9 (random36 (env j))"
    by (auto dest: decimal_inj)
next
  assume "now (env i) = now (env j)
         \<and> substr 2 9 (random36 (env i)) = substr 2 9 (random36 (env j))"
  then show "generatePositionId env i = generatePositionId env j"
    by (simp add: generatePositionId_def)
qed

lemma add_twice_ids:
  "appended_ids 2 (fst (add_position env p (fst (add_position env p sc d))
                     (Suc d + length (stages sc))))
   = map (\<lambda>k. Some (generatePositionId env k))
       ([d, Suc d + length (stages sc)]
        @ concat (map (\<lambda>j. [Suc d + j, Suc (Suc d + length (stages sc)) + j])
                    [0..<length (stages sc)]))"
  by (simp add: appended_ids_def add_position_def split_beta push_each_twice_ids
      map_concat comp_def)

lemma drawn_indices:
  "set ([d, Suc d + n] @ concat (map (\<lambda>j. [Suc d + j, Suc (Suc d + n) + j]) [0..<n]))
     = {d..<d + 2 * (n + 1)}"
  using interleaved_draws [of "Suc d" n "Suc (Suc d + n)"] by auto

lemma drawn_indices_distinct:
  "distinct ([d, Suc d + n] @ concat (map (\<lambda>j. [Suc d + j, Suc (Suc d + n) + j]) [0..<n]))"
  using interleaved_draws [of "Suc d" n "Suc (Suc d + n)"] by auto

lemma inj_on_ids_iff:
  "inj_on (\<lambda>k. Some (generatePositionId env k)) S = inj_on (draw_key env) S"
  by (simp add: inj_on_def generatePositionId_eq_iff draw_key_def)

lemma add_twice_distinct_iff:
  "distinct (appended_ids 2 (fst (add_position env p (fst (add_position env p sc d))
                     (Suc d + length (stages sc)))))
     = distinct (map (draw_key env) [d..<d + 2 * (length (stages sc) + 1)])"
proof -
  let ?n = "length (stages sc)"
  let ?idxs = "[d, Suc d + ?n] @ concat (map (\<lambda>j. [Suc d + j, Suc (Suc d + ?n) + j]) [0..<?n])"
  have "distinct (map (\<lambda>k. Some (generatePositionId env k)) ?idxs)
          = inj_on (\<lambda>k. Some (generatePositionId env k)) (set ?idxs)"
    using drawn_indices_distinct [of d ?n] by (simp only: distinct_map) simp
  also have "\<dots> = inj_on (draw_key env) {d..<d + 2 * (?n + 1)}"
    by (simp only: drawn_indices inj_on_ids_iff)
  also have "\<dots> = distinct (map (draw_key env) [d..<d + 2 * (?n + 1)])"
    by (simp only: distinct_map distinct_upt set_upt) simp
  finally show ?thesis by (simp only: add_twice_ids)
qed

text \<open>
  C8. The same position-added message processed twice is applied twice. Each processing
  appends one entry at the end of \<open>scene.positions\<close> of the target scene and one entry
  at the end of the list of every stage, so every list grows by one per message and the
  state after the second processing differs from the state after the first. Every
  appended entry takes its id from a draw of its own, \<open>2 * (stages + 1)\<close> consecutive
  draws in all, and never from the message. No two appended entries share an id exactly
  when no two of those draws agree in both the millisecond and the nine characters
  taken from the random number.
\<close>

theorem replayed_add_appends_twice:
  assumes "target_scene sceneId st = Some sc"
  shows "\<exists>st1 st2 sc1 sc2.
           on_position_add env sceneId p st = Inr st1
         \<and> on_position_add env sceneId p st1 = Inr st2
         \<and> target_scene sceneId st1 = Some sc1
         \<and> target_scene sceneId st2 = Some sc2
         \<and> positions sc1 = positions sc
              @ [Some \<lparr>pid = Some (generatePositionId env (drawn st)), pdata = info p\<rparr>]
         \<and> positions sc2 = positions sc1
              @ [Some \<lparr>pid = Some (generatePositionId env (drawn st1)), pdata = info p\<rparr>]
         \<and> map stage_positions (stages sc1)
              = map (\<lambda>(j, stg). stage_positions stg
                        @ [\<lparr>pid = Some (generatePositionId env j), pdata = stage_info p\<rparr>])
                  (enumerate (Suc (drawn st)) (stages sc))
         \<and> map stage_positions (stages sc2)
              = map (\<lambda>(j, stg). stage_positions stg
                        @ [\<lparr>pid = Some (generatePositionId env j), pdata = stage_info p\<rparr>])
                  (enumerate (Suc (drawn st1)) (stages sc1))
         \<and> map (\<lambda>s. length (stage_positions s)) (stages sc1)
              = map (\<lambda>s. Suc (length (stage_positions s))) (stages sc)
         \<and> map (\<lambda>s. length (stage_positions s)) (stages sc2)
              = map (\<lambda>s. Suc (length (stage_positions s))) (stages sc1)
         \<and> drawn st1 = drawn st + (length (stages sc) + 1)
         \<and> drawn st2 = drawn st + 2 * (length (stages sc) + 1)
         \<and> st2 \<noteq> st1
         \<and> distinct (appended_ids 2 sc2)
              = distinct (map (draw_key env)
                          [drawn st..<drawn st + 2 * (length (stages sc) + 1)])"
proof -
  let ?sc1 = "fst (add_position env p sc (drawn st))"
  from on_position_add_target [OF assms, of env p] obtain st1
    where 1: "on_position_add env sceneId p st = Inr st1"
      and t1: "target_scene sceneId st1 = Some ?sc1"
      and d1: "drawn st1 = Suc (drawn st) + length (stages sc)" by blast
  let ?sc2 = "fst (add_position env p ?sc1 (drawn st1))"
  from on_position_add_target [OF t1, of env p] obtain st2
    where 2: "on_position_add env sceneId p st1 = Inr st2"
      and t2: "target_scene sceneId st2 = Some ?sc2"
      and d2: "drawn st2 = Suc (drawn st1) + length (stages ?sc1)" by blast
  have n1: "length (stages ?sc1) = length (stages sc)"
    by (simp add: add_position_def split_beta length_fst_push_each)
  have p1: "positions ?sc1 = positions sc
              @ [Some \<lparr>pid = Some (generatePositionId env (drawn st)), pdata = info p\<rparr>]"
    by (simp add: add_position_def split_beta)
  have p2: "positions ?sc2 = positions ?sc1
              @ [Some \<lparr>pid = Some (generatePositionId env (drawn st1)), pdata = info p\<rparr>]"
    by (simp add: add_position_def split_beta)
  have s1: "map stage_positions (stages ?sc1)
              = map (\<lambda>(j, stg). stage_positions stg
                        @ [\<lparr>pid = Some (generatePositionId env j), pdata = stage_info p\<rparr>])
                  (enumerate (Suc (drawn st)) (stages sc))"
    by (rule add_position_stage_lists)
  have s2: "map stage_positions (stages ?sc2)
              = map (\<lambda>(j, stg). stage_positions stg
                        @ [\<lparr>pid = Some (generatePositionId env j), pdata = stage_info p\<rparr>])
                  (enumerate (Suc (drawn st1)) (stages ?sc1))"
    by (rule add_position_stage_lists)
  have l1: "map (\<lambda>s. length (stage_positions s)) (stages ?sc1)
              = map (\<lambda>s. Suc (length (stage_positions s))) (stages sc)"
    by (simp add: add_position_def split_beta push_each_lengths)
  have l2: "map (\<lambda>s. length (stage_positions s)) (stages ?sc2)
              = map (\<lambda>s. Suc (length (stage_positions s))) (stages ?sc1)"
    by (simp add: add_position_def split_beta push_each_lengths)
  have dd1: "drawn st1 = drawn st + (length (stages sc) + 1)" using d1 by simp
  have dd: "drawn st2 = drawn st + 2 * (length (stages sc) + 1)"
    using d1 d2 n1 by simp
  have ne: "st2 \<noteq> st1"
  proof
    assume "st2 = st1"
    with t1 t2 have "?sc2 = ?sc1" by simp
    then have "length (positions ?sc2) = length (positions ?sc1)" by simp
    with p2 show False by simp
  qed
  have ds: "distinct (appended_ids 2 ?sc2)
              = distinct (map (draw_key env)
                          [drawn st..<drawn st + 2 * (length (stages sc) + 1)])"
    using add_twice_distinct_iff [of env p sc "drawn st"] d1 by simp
  from 1 2 t1 t2 p1 p2 s1 s2 l1 l2 dd1 dd ne ds show ?thesis by blast
qed

theorem replayed_add_appends_twice_witness:
  "target_scene ''s1'' editingABC = Some sceneABC
   \<and> distinct (map (draw_key ticking)
         [drawn editingABC..<drawn editingABC + 2 * (length (stages sceneABC) + 1)])
   \<and> (\<exists>st1 st2 sc2.
         on_position_add ticking ''s1'' added editingABC = Inr st1
       \<and> on_position_add ticking ''s1'' added st1 = Inr st2
       \<and> target_scene ''s1'' st2 = Some sc2
       \<and> length (positions sc2) = length (positions sceneABC) + 2
       \<and> st2 \<noteq> st1
       \<and> distinct (appended_ids 2 sc2))"
proof -
  have t: "target_scene ''s1'' editingABC = Some sceneABC"
    by (simp add: target_scene_def editingABC_def sceneABC_def)
  have h: "distinct (map (draw_key ticking)
         [drawn editingABC..<drawn editingABC + 2 * (length (stages sceneABC) + 1)])"
    by code_simp
  from replayed_add_appends_twice [OF t, of ticking added] obtain st1 st2 and sc1 sc2 :: scene where
    r: "on_position_add ticking ''s1'' added editingABC = Inr st1"
       "on_position_add ticking ''s1'' added st1 = Inr st2"
       "target_scene ''s1'' st2 = Some sc2"
       "positions sc1 = positions sceneABC
              @ [Some \<lparr>pid = Some (generatePositionId ticking (drawn editingABC)), pdata = info added\<rparr>]"
       "positions sc2 = positions sc1
              @ [Some \<lparr>pid = Some (generatePositionId ticking (drawn st1)), pdata = info added\<rparr>]"
       "st2 \<noteq> st1"
       "distinct (appended_ids 2 sc2)
              = distinct (map (draw_key ticking)
                         [drawn editingABC..<drawn editingABC + 2 * (length (stages sceneABC) + 1)])"
    by blast
  from r(4,5) have "length (positions sc2) = length (positions sceneABC) + 2" by simp
  moreover from r(7) h have "distinct (appended_ids 2 sc2)" by blast
  ultimately show ?thesis using t h r(1,2,3,6) by blast
qed

text \<open>
  The claim as it stands, that no position id is reused, fails when the clock and the
  random generator repeat: with the same millisecond and the same random number at
  every call, the two entries appended to \<open>scene.positions\<close> and the six appended to
  the stages all have the id \<open>7_i\<close>.
\<close>

theorem replayed_add_reuses_id_counterexample:
  "on_position_add frozen ''s1'' added editingABC = Inr afterAdd
   \<and> on_position_add frozen ''s1'' added afterAdd = Inr afterReplay
   \<and> map_option positions (target_scene ''s1'' afterReplay)
        = Some [Some \<lparr>pid = Some ''p0'', pdata = ''lead''\<rparr>,
                Some \<lparr>pid = Some ''7_i'', pdata = ''second''\<rparr>,
                Some \<lparr>pid = Some ''7_i'', pdata = ''second''\<rparr>]
   \<and> map_option (appended_ids 2) (target_scene ''s1'' afterReplay)
        = Some (replicate 8 (Some ''7_i''))"
  by code_simp

subsection \<open>Stage saved\<close>

lemma background_stage_save_always_throws:
  assumes "scenes st \<noteq> []" and "activeScene st = Some a" and "scene_id a \<noteq> saved_scene msg"
  shows "on_stage_saved msg st = Inl (ReferenceError ''sceneId'', st)"
  using assms by (simp add: on_stage_saved_def)

text \<open>
  C3. A stage-saved message for a scene of the list that is not the active one: with
  the project \<open>editingABC\<close> (scenes \<open>s1\<close> and \<open>s2\<close>, \<open>s1\<close> active) and a message for
  \<open>s2\<close>, which is at index 1 of the list, the listener throws the reference error on
  \<open>sceneId\<close> and the state is what it was: the canvas is untouched, and so is the stage
  list of \<open>s2\<close>, which was to be cloned and patched.
\<close>

theorem background_stage_save_throws:
  "scenes editingABC \<noteq> []
   \<and> map_option scene_id (activeScene editingABC) = Some ''s1''
   \<and> findIndex (\<lambda>it. scene_id it = saved_scene savedForBlank) (scenes editingABC) = Some 1
   \<and> on_stage_saved savedForBlank editingABC = Inl (ReferenceError ''sceneId'', editingABC)"
  by (simp add: on_stage_saved_def savedForBlank_def editingABC_def sceneABC_def sceneBlank_def)

lemma find_map_prop:
  "find (\<lambda>n. node_id n = i) (map (\<lambda>n. if node_id n = i then f n else n) ns)
     = map_option f (find (\<lambda>n. node_id n = i) ns)"
  if "\<And>n. node_id (f n) = node_id n"
  using that by (induction ns) auto

lemma find_node_prop:
  assumes "\<And>n. node_id (f n) = node_id n"
  shows "find_node i (node_prop i f g) = map_option f (find_node i g)"
  using find_map_prop [of f i "nodes g", OF assms]
  by (simp add: find_node_def node_prop_def getNodes_def)

lemma find_snoc:
  "find P (xs @ [x]) = (case find P xs of None \<Rightarrow> if P x then Some x else None | Some y \<Rightarrow> Some y)"
  by (induction xs) auto

lemma find_node_added:
  "find_node (stage_id stg) (canvas_of st) = None \<Longrightarrow>
     \<exists>n. find_node (stage_id stg) (canvas_of (addStageToGraph stg st)) = Some n"
proof -
  assume "find_node (stage_id stg) (canvas_of st) = None"
  then have "find (\<lambda>n. node_id n = stage_id stg) (nodes (canvas_of (advance_cursor st))) = None"
    by (simp add: find_node_def getNodes_def advance_cursor_def Let_def)
  then show ?thesis
    by (simp add: find_node_def getNodes_def addStageToGraph_def Let_def find_snoc)
qed

text \<open>
  C6. A stage-saved message applied to the active scene, for a stage whose id is not
  among the scene's stages and whose push makes a list of exactly one stage: the listener
  returns, the active scene has that one stage, its \<open>root\<close> is the stage's id, and the
  node of the canvas with that id is flagged as start.
\<close>

theorem first_stage_becomes_start:
  assumes "activeScene st = Some a"
    and "scenes st = [] \<or> scene_id a = saved_scene msg"
    and "stage_id (saved_stage msg) \<notin> set (map stage_id (stages a))"
    and "length (stages a @ [saved_stage msg]) = 1"
  shows "\<exists>st' a' n. on_stage_saved msg st = Inr st'
           \<and> activeScene st' = Some a'
           \<and> stages a' = [saved_stage msg]
           \<and> root a' = Some (stage_id (saved_stage msg))
           \<and> find_node (stage_id (saved_stage msg)) (canvas_of st') = Some n
           \<and> isStart n"
proof -
  let ?stg = "saved_stage msg"
  let ?st1 = "case find_node (stage_id ?stg) (canvas_of st) of
                None \<Rightarrow> addStageToGraph ?stg st | Some n \<Rightarrow> st"
  let ?g2 = "updateNodeProps ?stg (stage_id ?stg) (Some a) (canvas_of ?st1)"
  let ?g3 = "node_prop (stage_id ?stg) (\<lambda>n. n\<lparr>isStart := True\<rparr>) ?g2"
  from assms(4) have e: "stages a = []" by simp
  then have fi: "findIndex (\<lambda>it. stage_id it = stage_id ?stg) (stages a) = None" by simp
  have run: "on_stage_saved msg st =
        Inr (?st1\<lparr>canvas_of := ?g3,
                  activeScene := Some (a\<lparr>stages := [?stg], root := Some (stage_id ?stg),
                                        positions := map Some (saved_positions msg)\<rparr>),
                  edited := True\<rparr>)"
    using assms(1,2) e by (auto simp: on_stage_saved_def Let_def)
  obtain n1 where n1: "find_node (stage_id ?stg) (canvas_of ?st1) = Some n1"
    using find_node_added [of ?stg st] by (cases "find_node (stage_id ?stg) (canvas_of st)") auto
  then obtain n2 where n2: "find_node (stage_id ?stg) ?g2 = Some n2"
    by (simp add: updateNodeProps_def find_node_prop)
  then have "find_node (stage_id ?stg) ?g3 = Some (n2\<lparr>isStart := True\<rparr>)"
    by (simp add: find_node_prop)
  with run show ?thesis by simp
qed

theorem first_stage_becomes_start_witness:
  "activeScene editingBlank = Some sceneBlank
   \<and> (scenes editingBlank = [] \<or> scene_id sceneBlank = saved_scene savedForBlank)
   \<and> stage_id (saved_stage savedForBlank) \<notin> set (map stage_id (stages sceneBlank))
   \<and> length (stages sceneBlank @ [saved_stage savedForBlank]) = 1
   \<and> (\<exists>st' a' n. on_stage_saved savedForBlank editingBlank = Inr st'
           \<and> activeScene st' = Some a'
           \<and> stages a' = [stageD]
           \<and> root a' = Some ''D''
           \<and> find_node ''D'' (canvas_of st') = Some n
           \<and> isStart n)"
proof -
  have h: "activeScene editingBlank = Some sceneBlank"
    "scenes editingBlank = [] \<or> scene_id sceneBlank = saved_scene savedForBlank"
    "stage_id (saved_stage savedForBlank) \<notin> set (map stage_id (stages sceneBlank))"
    "length (stages sceneBlank @ [saved_stage savedForBlank]) = 1"
    by (simp_all add: editingBlank_def sceneBlank_def savedForBlank_def)
  have s: "saved_stage savedForBlank = stageD" "stage_id stageD = ''D''"
    by (simp_all add: savedForBlank_def stageD_def)
  from first_stage_becomes_start [OF h] h show ?thesis unfolding s by blast
qed

subsection \<open>Marking the start stage\<close>

lemma filter_eq_singleton: "distinct xs \<Longrightarrow> x \<in> set xs \<Longrightarrow> filter (\<lambda>y. y = x) xs = [x]"
  by (induction xs) (auto simp: filter_empty_conv)

lemma doMarkRoot_result:
  assumes "activeScene st = Some a"
  shows "doMarkRoot i st =
     Inr (st\<lparr>canvas_of :=
               node_prop i (\<lambda>n. n\<lparr>isStart := True\<rparr>)
                 (case root a of
                    None \<Rightarrow> canvas_of st
                  | Some r \<Rightarrow> node_prop r (\<lambda>n. n\<lparr>isStart := False\<rparr>) (canvas_of st)),
             activeScene := Some (a\<lparr>root := Some i\<rparr>),
             edited := True\<rparr>)"
  using assms by (simp add: doMarkRoot_def Let_def)

lemma marked_nodes:
  assumes "activeScene st = Some a" and "start_mirrors_root st"
  shows "nodes (node_prop i (\<lambda>n. n\<lparr>isStart := True\<rparr>)
                 (case root a of
                    None \<Rightarrow> canvas_of st
                  | Some r \<Rightarrow> node_prop r (\<lambda>n. n\<lparr>isStart := False\<rparr>) (canvas_of st)))
         = map (\<lambda>n. n\<lparr>isStart := (node_id n = i)\<rparr>) (nodes (canvas_of st))"
proof -
  from assms have m: "\<And>n. n \<in> set (nodes (canvas_of st)) \<Longrightarrow> isStart n \<Longrightarrow> root a = Some (node_id n)"
    by (auto simp: start_mirrors_root_def start_nodes_def getNodes_def list_all_iff)
  have plain: "\<And>n::node. \<not> isStart n \<Longrightarrow> n\<lparr>isStart := False\<rparr> = n" by simp
  show ?thesis
  proof (cases "root a")
    case None
    with m have "\<And>n. n \<in> set (nodes (canvas_of st)) \<Longrightarrow> \<not> isStart n" by auto
    with None show ?thesis by (auto simp: node_prop_def plain)
  next
    case (Some r)
    with m have "\<And>n. n \<in> set (nodes (canvas_of st)) \<Longrightarrow> node_id n \<noteq> r \<Longrightarrow> \<not> isStart n"
      by auto
    with Some show ?thesis by (auto simp: node_prop_def plain)
  qed
qed

lemma start_ids_after_mark:
  "map node_id (filter isStart (map (\<lambda>n. n\<lparr>isStart := (node_id n = i)\<rparr>) ns))
     = filter (\<lambda>x. x = i) (map node_id ns)"
  by (induction ns) auto

lemma mark_again:
  assumes "activeScene st1 = Some a1" and "root a1 = Some i" and "edited st1"
    and "\<forall>n\<in>set (nodes (canvas_of st1)). node_id n = i \<longrightarrow> isStart n"
  shows "doMarkRoot i st1 = Inr st1"
proof -
  have same: "\<And>n::node. isStart n \<Longrightarrow> n\<lparr>isStart := True\<rparr> = n" by simp
  have "map (\<lambda>n. if node_id n = i then n\<lparr>isStart := True\<rparr> else n)
          (map (\<lambda>n. if node_id n = i then n\<lparr>isStart := False\<rparr> else n) (nodes (canvas_of st1)))
        = nodes (canvas_of st1)"
    using assms(4) by (intro map_idI [THEN trans [OF map_map]]) (auto simp: same)
  then have "node_prop i (\<lambda>n. n\<lparr>isStart := True\<rparr>)
               (node_prop i (\<lambda>n. n\<lparr>isStart := False\<rparr>) (canvas_of st1)) = canvas_of st1"
    by (simp add: node_prop_def)
  moreover have "a1\<lparr>root := Some i\<rparr> = a1" using assms(2) by simp
  ultimately show ?thesis
    using assms(1,2,3) by (simp add: doMarkRoot_result [OF assms(1)])
qed

text \<open>
  C7. On a canvas with distinct node ids whose start flags mirror \<open>root\<close>, marking a
  node as root and marking it again gives the state the first marking gave: \<open>root\<close> is
  the node's id, the node is the only one flagged as start, and the start flags mirror
  \<open>root\<close> again.
\<close>

theorem mark_root_twice_one_start:
  assumes "activeScene st = Some a"
    and "distinct (map node_id (getNodes (canvas_of st)))"
    and "i \<in> set (map node_id (getNodes (canvas_of st)))"
    and "start_mirrors_root st"
  shows "\<exists>st1 a1. doMarkRoot i st = Inr st1
           \<and> doMarkRoot i st1 = Inr st1
           \<and> activeScene st1 = Some a1
           \<and> root a1 = Some i
           \<and> map node_id (start_nodes (canvas_of st1)) = [i]
           \<and> start_mirrors_root st1"
proof -
  let ?g2 = "node_prop i (\<lambda>n. n\<lparr>isStart := True\<rparr>)
                 (case root a of
                    None \<Rightarrow> canvas_of st
                  | Some r \<Rightarrow> node_prop r (\<lambda>n. n\<lparr>isStart := False\<rparr>) (canvas_of st))"
  let ?st1 = "st\<lparr>canvas_of := ?g2, activeScene := Some (a\<lparr>root := Some i\<rparr>), edited := True\<rparr>"
  have r1: "doMarkRoot i st = Inr ?st1" by (rule doMarkRoot_result [OF assms(1)])
  have ns: "nodes ?g2 = map (\<lambda>n. n\<lparr>isStart := (node_id n = i)\<rparr>) (nodes (canvas_of st))"
    by (rule marked_nodes [OF assms(1,4)])
  have ids: "map node_id (start_nodes ?g2) = [i]"
    using assms(2,3)
    by (simp add: start_nodes_def getNodes_def ns start_ids_after_mark filter_eq_singleton)
  have "\<forall>n\<in>set (start_nodes ?g2). node_id n = i"
  proof
    fix n assume "n \<in> set (start_nodes ?g2)"
    then have "node_id n \<in> set (map node_id (start_nodes ?g2))" by simp
    with ids show "node_id n = i" by simp
  qed
  then have inv: "start_mirrors_root ?st1"
    by (simp add: start_mirrors_root_def list_all_iff)
  have "\<forall>n\<in>set (nodes (canvas_of ?st1)). node_id n = i \<longrightarrow> isStart n"
    by (simp add: ns)
  then have r2: "doMarkRoot i ?st1 = Inr ?st1"
    by (intro mark_again [where ?a1.0 = "a\<lparr>root := Some i\<rparr>"]) simp_all
  from r1 r2 ids inv show ?thesis by simp
qed

theorem mark_root_twice_one_start_witness:
  "activeScene editingABC = Some sceneABC
   \<and> distinct (map node_id (getNodes (canvas_of editingABC)))
   \<and> ''B'' \<in> set (map node_id (getNodes (canvas_of editingABC)))
   \<and> start_mirrors_root editingABC
   \<and> map node_id (start_nodes (canvas_of editingABC)) = [''A'']
   \<and> (\<exists>st1 a1. doMarkRoot ''B'' editingABC = Inr st1
           \<and> doMarkRoot ''B'' st1 = Inr st1
           \<and> activeScene st1 = Some a1
           \<and> root a1 = Some ''B''
           \<and> map node_id (start_nodes (canvas_of st1)) = [''B'']
           \<and> start_mirrors_root st1)"
proof -
  have h: "activeScene editingABC = Some sceneABC"
    "distinct (map node_id (getNodes (canvas_of editingABC)))"
    "''B'' \<in> set (map node_id (getNodes (canvas_of editingABC)))"
    "start_mirrors_root editingABC"
    and b: "map node_id (start_nodes (canvas_of editingABC)) = [''A'']"
    by (simp_all add: editingABC_def canvasABC_def getNodes_def stage_node_def stageA_def
        stageB_def stageC_def start_mirrors_root_def start_nodes_def sceneABC_def)
  from mark_root_twice_one_start [OF h] h b show ?thesis by blast
qed

subsection \<open>Switching the active scene\<close>

text \<open>
  C5. A request to switch the active scene, made with unsaved changes and the guard
  down, opens the confirmation; when it is declined the state is returned as it was:
  canvas, scenes, active scene, dirty flag and guard.
\<close>

theorem declined_switch_changes_nothing:
  assumes "edited st" and "\<not> inEdit st"
  shows "setActiveScene Cancel newscene st = Inr st"
  using assms by (simp add: setActiveScene_def)

theorem declined_switch_changes_nothing_witness:
  "edited editingABC \<and> \<not> inEdit editingABC
   \<and> setActiveScene Cancel sceneBlank editingABC = Inr editingABC"
proof -
  have h: "edited editingABC" "\<not> inEdit editingABC" by (simp_all add: editingABC_def)
  from declined_switch_changes_nothing [OF h] h show ?thesis by simp
qed

subsection \<open>Saving\<close>

text \<open>
  C4. With an active scene whose name is empty, \<open>saveScene\<close> makes no \<open>save_scene\<close>
  call and shows the \<open>Missing Name\<close> notification (whose click focuses the name field);
  the whole save leaves the state, the dirty flag in it, as it was.
\<close>

theorem save_without_name_aborts:
  assumes "activeScene st = Some a" and "name a = []"
  shows "\<exists>out. saveScene st = Inr out
           \<and> save_scene_call out = None
           \<and> MissingName \<in> set (notified out)
           \<and> save st = st"
  using assms by (simp add: save_def saveScene_def Let_def split: prod.splits)

theorem save_without_name_aborts_witness:
  "activeScene editingBlank = Some sceneBlank \<and> name sceneBlank = [] \<and> edited editingBlank
   \<and> (\<exists>out. saveScene editingBlank = Inr out
           \<and> save_scene_call out = None
           \<and> MissingName \<in> set (notified out)
           \<and> save editingBlank = editingBlank)"
proof -
  have h: "activeScene editingBlank = Some sceneBlank" "name sceneBlank = []"
    and e: "edited editingBlank"
    by (simp_all add: editingBlank_def sceneBlank_def)
  from save_without_name_aborts [OF h] h e show ?thesis by simp
qed

lemma depthFirstSearch_visits_once:
  "distinct (depthFirstSearch es unvisited stack)
   \<and> set (depthFirstSearch es unvisited stack) \<subseteq> set unvisited"
  by (induction es unvisited stack rule: depthFirstSearch.induct) auto

lemma length_depthFirstSearch:
  "length (depthFirstSearch es unvisited stack) \<le> length unvisited"
proof -
  have "length (depthFirstSearch es unvisited stack)
          = card (set (depthFirstSearch es unvisited stack))"
    using depthFirstSearch_visits_once [of es unvisited stack] by (simp add: distinct_card)
  also have "\<dots> \<le> card (set unvisited)"
    using depthFirstSearch_visits_once [of es unvisited stack] by (simp add: card_mono)
  also have "\<dots> \<le> length unvisited" by (rule card_length)
  finally show ?thesis .
qed

lemma getSuccessors_from_node:
  assumes "startNode \<in> set (nodes g)"
  shows "depthFirstSearch (edges g) (map node_id (nodes g)) [node_id startNode]
           = node_id startNode # getSuccessors g startNode"
proof -
  let ?rest = "depthFirstSearch (edges g) (removeAll (node_id startNode) (map node_id (nodes g)))
                 (neighbours (edges g) (node_id startNode) @ [])"
  from assms have d: "depthFirstSearch (edges g) (map node_id (nodes g)) [node_id startNode]
                        = node_id startNode # ?rest"
    by simp
  have "set ?rest \<subseteq> set (removeAll (node_id startNode) (map node_id (nodes g)))"
    using depthFirstSearch_visits_once by blast
  then have "node_id startNode \<notin> set ?rest" by auto
  then have "filter (\<lambda>x. x \<noteq> node_id startNode) ?rest = ?rest"
    by (auto simp: filter_id_conv)
  with d show ?thesis by (simp add: getSuccessors_def)
qed

lemma successors_bound:
  assumes "startNode \<in> set (nodes g)"
  shows "length (getSuccessors g startNode) + 1 \<le> length (nodes g)"
proof -
  have "length (depthFirstSearch (edges g) (map node_id (nodes g)) [node_id startNode])
          \<le> length (map node_id (nodes g))"
    by (rule length_depthFirstSearch)
  then show ?thesis unfolding getSuccessors_from_node [OF assms] by simp
qed

lemma find_Some_mem: "find P xs = Some x \<Longrightarrow> x \<in> set xs"
  by (induction xs) (auto split: if_splits)

lemma set_neighbours: "set (neighbours es x) = {y. (x, y) \<in> set es}"
  by (auto simp: neighbours_def image_iff)

lemma edges_within_mono: "U \<subseteq> V \<Longrightarrow> edges_within es U \<subseteq> edges_within es V"
  by (auto simp: edges_within_def)

text \<open>A path either reaches \<open>x\<close>, or avoids it, or leaves it for the last time through a neighbour.\<close>

lemma path_split:
  assumes "(z, y) \<in> (edges_within es U)\<^sup>*"
  shows "y = x
       \<or> (z \<noteq> x \<and> (z, y) \<in> (edges_within es (U - {x}))\<^sup>*)
       \<or> (\<exists>w. (x, w) \<in> set es \<and> w \<in> U - {x} \<and> (w, y) \<in> (edges_within es (U - {x}))\<^sup>*)"
  using assms
proof (induction rule: rtrancl_induct)
  case base
  then show ?case by auto
next
  case (step y y')
  from step.hyps(2) have e: "(y, y') \<in> set es" "y \<in> U" "y' \<in> U"
    by (auto simp: edges_within_def)
  show ?case
  proof (cases "y' = x")
    case True
    then show ?thesis by simp
  next
    case False
    show ?thesis
    proof (cases "y = x")
      case True
      with e False have "(x, y') \<in> set es \<and> y' \<in> U - {x}" by simp
      then show ?thesis by blast
    next
      case yx: False
      with e False have s: "(y, y') \<in> edges_within es (U - {x})"
        by (simp add: edges_within_def)
      from step.IH yx consider
          (a) "z \<noteq> x" "(z, y) \<in> (edges_within es (U - {x}))\<^sup>*"
        | (b) w where "(x, w) \<in> set es" "w \<in> U - {x}" "(w, y) \<in> (edges_within es (U - {x}))\<^sup>*"
        by blast
      then show ?thesis
      proof cases
        case a
        with s have "(z, y') \<in> (edges_within es (U - {x}))\<^sup>*" by (meson rtrancl.rtrancl_into_rtrancl)
        with a show ?thesis by blast
      next
        case b
        with s have "(w, y') \<in> (edges_within es (U - {x}))\<^sup>*" by (meson rtrancl.rtrancl_into_rtrancl)
        with b show ?thesis by blast
      qed
    qed
  qed
qed

lemma depthFirstSearch_reaches:
  "set (depthFirstSearch es unvisited stack)
     = {y. \<exists>z\<in>set stack. z \<in> set unvisited \<and> (z, y) \<in> (edges_within es (set unvisited))\<^sup>*}"
proof (induction es unvisited stack rule: depthFirstSearch.induct)
  case (1 es unvisited)
  then show ?case by simp
next
  case (2 es unvisited x stack)
  let ?U = "set unvisited"
  show ?case
  proof (cases "x \<in> ?U")
    case False
    with 2 show ?thesis by auto
  next
    case True
    let ?V = "?U - {x}"
    from True 2 have IH: "set (depthFirstSearch es (removeAll x unvisited) (neighbours es x @ stack))
        = {y. \<exists>z\<in>set (neighbours es x) \<union> set stack. z \<in> ?V \<and> (z, y) \<in> (edges_within es ?V)\<^sup>*}"
      by simp
    have sub: "(edges_within es ?V)\<^sup>* \<subseteq> (edges_within es ?U)\<^sup>*"
      by (rule rtrancl_mono) (rule edges_within_mono, auto)
    have "{x} \<union> {y. \<exists>z\<in>set (neighbours es x) \<union> set stack. z \<in> ?V \<and> (z, y) \<in> (edges_within es ?V)\<^sup>*}
          = {y. \<exists>z\<in>set (x # stack). z \<in> ?U \<and> (z, y) \<in> (edges_within es ?U)\<^sup>*}"
      (is "?L = ?R")
    proof (rule set_eqI, rule iffI)
      fix y assume "y \<in> ?L"
      then consider (x) "y = x"
        | (n) z where "(x, z) \<in> set es" "z \<in> ?V" "(z, y) \<in> (edges_within es ?V)\<^sup>*"
        | (s) z where "z \<in> set stack" "z \<in> ?V" "(z, y) \<in> (edges_within es ?V)\<^sup>*"
        by (auto simp: set_neighbours)
      then show "y \<in> ?R"
      proof cases
        case x
        with True show ?thesis by auto
      next
        case n
        with True have "(x, z) \<in> edges_within es ?U" by (simp add: edges_within_def)
        moreover from n sub have "(z, y) \<in> (edges_within es ?U)\<^sup>*" by blast
        ultimately have "(x, y) \<in> (edges_within es ?U)\<^sup>*" by (meson converse_rtrancl_into_rtrancl)
        with True show ?thesis by auto
      next
        case s
        with sub have "(z, y) \<in> (edges_within es ?U)\<^sup>*" by blast
        with s show ?thesis by auto
      qed
    next
      fix y assume "y \<in> ?R"
      then obtain z where z: "z = x \<or> z \<in> set stack" "z \<in> ?U" "(z, y) \<in> (edges_within es ?U)\<^sup>*"
        by auto
      from path_split [OF z(3), of x] consider (x) "y = x"
        | (a) "z \<noteq> x" "(z, y) \<in> (edges_within es ?V)\<^sup>*"
        | (b) w where "(x, w) \<in> set es" "w \<in> ?V" "(w, y) \<in> (edges_within es ?V)\<^sup>*"
        by blast
      then show "y \<in> ?L"
      proof cases
        case x
        then show ?thesis by simp
      next
        case a
        with z have "z \<in> set stack" "z \<in> ?V" by auto
        with a show ?thesis by auto
      next
        case b
        then have "w \<in> set (neighbours es x)" by (simp add: set_neighbours)
        with b show ?thesis by auto
      qed
    qed
    with True IH show ?thesis by simp
  qed
qed

lemma getSuccessors_reachable:
  assumes "startNode \<in> set (nodes g)"
  shows "set (getSuccessors g startNode) = reachable_stages g startNode"
    and "distinct (getSuccessors g startNode)"
proof -
  let ?ids = "map node_id (nodes g)"
  have "set (getSuccessors g startNode)
          = set (depthFirstSearch (edges g) ?ids [node_id startNode]) - {node_id startNode}"
    by (auto simp: getSuccessors_def)
  also have "\<dots> = {y. (node_id startNode, y) \<in> (edges_within (edges g) (set ?ids))\<^sup>*}
                     - {node_id startNode}"
    using assms by (simp only: depthFirstSearch_reaches) auto
  finally show "set (getSuccessors g startNode) = reachable_stages g startNode"
    by (simp add: reachable_stages_def getNodes_def)
  show "distinct (getSuccessors g startNode)"
    using depthFirstSearch_visits_once [of "edges g" ?ids "[node_id startNode]"]
    by (simp only: getSuccessors_def distinct_filter)
qed

lemma card_reachable_stages:
  assumes "startNode \<in> set (nodes g)"
  shows "card (reachable_stages g startNode) = length (getSuccessors g startNode)"
  using getSuccessors_reachable [OF assms] by (metis distinct_card)

text \<open>
  C2. A save of a named, edited scene whose start node is on the canvas goes through to
  \<open>save_scene\<close>, and the scene it saves has \<open>has_warnings\<close> set exactly when the number
  of stages reachable from the start stage, plus one for the start stage, differs from
  the number of nodes; the \<open>Unreachable Stages\<close> notification is shown in that case; the
  acknowledged save makes that scene the active one and clears the dirty flag.
\<close>

theorem mismatch_warns_without_blocking:
  assumes "activeScene st = Some a" and "name a \<noteq> []" and "edited st"
    and "find (\<lambda>n. Some (node_id n) = root a) (getNodes (canvas_of st)) = Some startNode"
  shows "\<exists>out sc. saveScene st = Inr out
           \<and> save_scene_call out = Some sc
           \<and> has_warnings sc
                = (card (reachable_stages (canvas_of st) startNode) + 1
                     \<noteq> length (getNodes (canvas_of st)))
           \<and> (UnreachableStages \<in> set (notified out)) = has_warnings sc
           \<and> activeScene (save st) = Some sc
           \<and> \<not> edited (save st)"
proof -
  let ?succ = "getSuccessors (canvas_of st) startNode"
  let ?ns = "getNodes (canvas_of st)"
  from assms(4) have mem: "startNode \<in> set (nodes (canvas_of st))"
    by (auto simp: getNodes_def dest: find_Some_mem)
  then have le: "length ?succ + 1 \<le> length ?ns"
    using successors_bound by (simp add: getNodes_def)
  have c: "card (reachable_stages (canvas_of st) startNode) = length ?succ"
    by (rule card_reachable_stages [OF mem])
  from le have eq: "(int (length ?succ) + 1 < int (length ?ns)) = (length ?succ + 1 \<noteq> length ?ns)"
    by linarith
  show ?thesis
  proof (cases "length ?succ + 1 \<noteq> length ?ns")
    case True
    with eq have "int (length ?succ) + 1 < int (length ?ns)" by simp
    with assms True c show ?thesis
      by (simp add: saveScene_def save_def save_acknowledged_def Let_def)
  next
    case False
    with eq have "\<not> int (length ?succ) + 1 < int (length ?ns)" by simp
    with assms False c show ?thesis
      by (simp add: saveScene_def save_def save_acknowledged_def Let_def)
  qed
qed

theorem mismatch_warns_without_blocking_witness:
  "activeScene editingABC = Some sceneABC \<and> name sceneABC \<noteq> [] \<and> edited editingABC
   \<and> find (\<lambda>n. Some (node_id n) = root sceneABC) (getNodes (canvas_of editingABC))
        = Some (stage_node stageA 40 True)
   \<and> map node_id (getNodes (canvas_of editingABC)) = [''A'', ''B'', ''C'']
   \<and> edges (canvas_of editingABC) = [(''A'', ''B'')]
   \<and> reachable_stages (canvas_of editingABC) (stage_node stageA 40 True) = {''B''}
   \<and> (\<exists>out sc. saveScene editingABC = Inr out
           \<and> save_scene_call out = Some sc
           \<and> has_warnings sc
           \<and> UnreachableStages \<in> set (notified out)
           \<and> activeScene (save editingABC) = Some sc
           \<and> \<not> edited (save editingABC))"
proof -
  have h: "activeScene editingABC = Some sceneABC" "name sceneABC \<noteq> []" "edited editingABC"
    "find (\<lambda>n. Some (node_id n) = root sceneABC) (getNodes (canvas_of editingABC))
        = Some (stage_node stageA 40 True)"
    by (simp_all add: editingABC_def sceneABC_def canvasABC_def getNodes_def stage_node_def
        stageA_def)
  have g: "map node_id (getNodes (canvas_of editingABC)) = [''A'', ''B'', ''C'']"
    "edges (canvas_of editingABC) = [(''A'', ''B'')]"
    by (simp_all add: editingABC_def canvasABC_def getNodes_def stage_node_def
        stageA_def stageB_def stageC_def)
  have s: "getSuccessors (canvas_of editingABC) (stage_node stageA 40 True) = [''B'']"
    using g by (simp add: getSuccessors_def getNodes_def neighbours_def stage_node_def stageA_def)
  have "stage_node stageA 40 True \<in> set (nodes (canvas_of editingABC))"
    by (simp add: editingABC_def canvasABC_def)
  from getSuccessors_reachable(1) [OF this] s
  have rs: "reachable_stages (canvas_of editingABC) (stage_node stageA 40 True) = {''B''}"
    by simp
  have n: "length (getNodes (canvas_of editingABC)) = 3"
    using g(1) by (metis length_map length_Cons list.size(3) numeral_3_eq_3)
  from mismatch_warns_without_blocking [OF h] obtain out sc where
    r: "saveScene editingABC = Inr out" "save_scene_call out = Some sc"
       "has_warnings sc
                = (card (reachable_stages (canvas_of editingABC) (stage_node stageA 40 True)) + 1
                     \<noteq> length (getNodes (canvas_of editingABC)))"
       "(UnreachableStages \<in> set (notified out)) = has_warnings sc"
       "activeScene (save editingABC) = Some sc" "\<not> edited (save editingABC)"
    by blast
  from r(3) rs n have w: "has_warnings sc" by simp
  with r(4) have "UnreachableStages \<in> set (notified out)" by simp
  with h g rs r(1,2,5,6) w show ?thesis by blast
qed

end
